theory Spec2Isabelle
  imports Complex_Main "HOL-Library.Finite_Map"
begin

section \<open>Strings and numbers of the source language\<close>

text \<open>
  A TypeScript string is modelled by a \<^typ>\<open>string\<close>, one \<^typ>\<open>char\<close> per byte of its
  UTF-8 encoding, which is what \<open>Buffer.from(fileName)\<close> holds. The separators, digits and
  letters that \<open>split('.')\<close>, the regular expressions and \<open>toUpperCase()\<close> of the
  repository look for are ASCII characters, one byte each, and no byte of a longer
  encoding is an ASCII byte. White space is the exception: some of its characters have
  encodings of two or three bytes. File contents are byte lists too.
\<close>

type_synonym bytes = "char list"

definition isDigit :: "char \<Rightarrow> bool" where
  "isDigit c = (48 \<le> (of_char c :: nat) \<and> (of_char c :: nat) \<le> 57)"

text \<open>
  The white space of the language, which is the class \<open>\s\<close> of a regular expression, what
  \<open>trim()\<close> strips and what \<open>parseInt\<close> skips: the code points U+0009 to U+000D, U+0020,
  U+00A0, U+1680, U+2000 to U+200A, U+2028, U+2029, U+202F, U+205F, U+3000 and U+FEFF, each
  as the bytes of its encoding.
\<close>

definition whiteSpace :: "string list" where
  "whiteSpace =
     [[CHR 0x09], [CHR 0x0A], [CHR 0x0B], [CHR 0x0C], [CHR 0x0D], [CHR 0x20],
      [CHR 0xC2, CHR 0xA0],
      [CHR 0xE1, CHR 0x9A, CHR 0x80],
      [CHR 0xE2, CHR 0x80, CHR 0x80], [CHR 0xE2, CHR 0x80, CHR 0x81],
      [CHR 0xE2, CHR 0x80, CHR 0x82], [CHR 0xE2, CHR 0x80, CHR 0x83],
      [CHR 0xE2, CHR 0x80, CHR 0x84], [CHR 0xE2, CHR 0x80, CHR 0x85],
      [CHR 0xE2, CHR 0x80, CHR 0x86], [CHR 0xE2, CHR 0x80, CHR 0x87],
      [CHR 0xE2, CHR 0x80, CHR 0x88], [CHR 0xE2, CHR 0x80, CHR 0x89],
      [CHR 0xE2, CHR 0x80, CHR 0x8A],
      [CHR 0xE2, CHR 0x80, CHR 0xA8], [CHR 0xE2, CHR 0x80, CHR 0xA9],
      [CHR 0xE2, CHR 0x80, CHR 0xAF],
      [CHR 0xE2, CHR 0x81, CHR 0x9F],
      [CHR 0xE3, CHR 0x80, CHR 0x80],
      [CHR 0xEF, CHR 0xBB, CHR 0xBF]]"

text \<open>
  The text left when the characters of a table are taken from the head of a text for as
  long as one of them stands there: with the table of white space, what follows a greedy
  \<open>\s*\<close>.
\<close>

function dropLeading :: "string list \<Rightarrow> string \<Rightarrow> string" where
  "dropLeading table s =
     (case find (\<lambda>w. w \<noteq> [] \<and> take (length w) s = w) table of
        None \<Rightarrow> s
      | Some w \<Rightarrow> dropLeading table (drop (length w) s))"
  by pat_completeness auto
termination
proof (relation "measure (\<lambda>(table, s). length s)", goal_cases)
  case 1
  show ?case by simp
next
  case (2 table s w)
  then have "w \<noteq> []" "take (length w) s = w"
    by (auto simp: find_Some_iff)
  then have "s \<noteq> []" by auto
  with \<open>w \<noteq> []\<close> show ?case by simp
qed

declare dropLeading.simps [simp del]

definition skipSpaces :: "string \<Rightarrow> string" where
  "skipSpaces s = dropLeading whiteSpace s"

definition isAlnum :: "char \<Rightarrow> bool" where
  \<comment> \<open>the class \<open>[a-zA-Z0-9]\<close>\<close>
  "isAlnum c = (let n = (of_char c :: nat) in
     (48 \<le> n \<and> n \<le> 57) \<or> (65 \<le> n \<and> n \<le> 90) \<or> (97 \<le> n \<and> n \<le> 122))"

definition toUpper :: "char \<Rightarrow> char" where
  "toUpper c = (let n = (of_char c :: nat) in
     if 97 \<le> n \<and> n \<le> 122 then char_of (n - 32) else c)"

definition toUpperCase :: "string \<Rightarrow> string" where
  "toUpperCase s = map toUpper s"

definition digitChar :: "nat \<Rightarrow> char" where
  "digitChar d = char_of (48 + d)"

definition digitVal :: "char \<Rightarrow> nat" where
  "digitVal c = of_char c - 48"

text \<open>\<open>Number.prototype.toString()\<close> on a non-negative integer: its decimal digits.\<close>

fun toString :: "nat \<Rightarrow> string" where
  "toString n = (if n < 10 then [digitChar n] else toString (n div 10) @ [digitChar (n mod 10)])"

declare toString.simps [simp del]

text \<open>The value of a string of decimal digits.\<close>

definition decimal :: "string \<Rightarrow> nat" where
  "decimal ds = foldl (\<lambda>a c. 10 * a + digitVal c) 0 ds"

section \<open>Size codec: \<open>StorageUtils.parseSize\<close> and \<open>StorageUtils.formatSize\<close>\<close>

text \<open>
  A JavaScript number is modelled by an exact rational (\<open>parseSize\<close>) or real
  (\<open>formatSize\<close>). In \<open>parseSize\<close> the rounding to a double is not modelled: the value
  returned is the exact product, which the code rounds when the number has more than 53
  significant bits. In \<open>formatSize\<close> the division by a power of 1024 is exact in a double
  as well, and the logarithm is a parameter (see there).

  \<open>parseFloat\<close> on the text that the first group of the pattern captures: digits,
  optionally followed by a point and more digits.
\<close>

definition parseFloat :: "string \<Rightarrow> rat" where
  "parseFloat s =
     (let ip = takeWhile isDigit s; r = dropWhile isDigit s in
      case r of
        [] \<Rightarrow> of_nat (decimal ip)
      | c # fs \<Rightarrow>
          if c = CHR ''.'' then
            (let fr = takeWhile isDigit fs in
             of_nat (decimal ip) + of_nat (decimal fr) / 10 ^ length fr)
          else of_nat (decimal ip))"

text \<open>The table \<open>units\<close> of \<open>parseSize\<close>.\<close>

definition units :: "(string \<times> nat) list" where
  "units = [(''B'', 1), (''KB'', 1024), (''MB'', 1024 * 1024), (''GB'', 1024 * 1024 * 1024),
            (''TB'', 1024 * 1024 * 1024 * 1024)]"

text \<open>
  \<open>sizeString.match(/^(\d+(?:\.\d+)?)\s*([KMGT]?B)$/i)\<close>: the two captured groups, or
  \<open>None\<close> for \<open>null\<close>. Every quantifier of the pattern is followed by a character
  outside its class, so the greedy scan is the only way to match.
\<close>

definition matchSize :: "string \<Rightarrow> (string \<times> string) option" where
  "matchSize s =
     (let ip = takeWhile isDigit s; r1 = dropWhile isDigit s in
      if ip = [] then None
      else
        let (num, r2) =
              (case r1 of
                 [] \<Rightarrow> (ip, r1)
               | c # fs \<Rightarrow>
                   if c = CHR ''.'' \<and> takeWhile isDigit fs \<noteq> []
                   then (ip @ [c] @ takeWhile isDigit fs, dropWhile isDigit fs)
                   else (ip, r1));
            u = skipSpaces r2
        in if toUpperCase u \<in> set [''B'', ''KB'', ''MB'', ''GB'', ''TB''] then Some (num, u)
           else None)"

definition parseSize :: "string \<Rightarrow> rat" where
  "parseSize sizeString =
     (case matchSize sizeString of
        None \<Rightarrow> 0
      | Some (num, u) \<Rightarrow>
          parseFloat num *
            of_nat (case map_of units (toUpperCase u) of
                      None \<Rightarrow> 1
                    | Some m \<Rightarrow> if m = 0 then 1 else m))"

text \<open>The table \<open>sizes\<close> of \<open>formatSize\<close>; an index outside it reads \<open>undefined\<close>.\<close>

definition sizes :: "string list" where
  "sizes = [''B'', ''KB'', ''MB'', ''GB'', ''TB'']"

definition sizesAt :: "int \<Rightarrow> string" where
  "sizesAt i = (if 0 \<le> i \<and> i < int (length sizes) then sizes ! nat i else ''undefined'')"

text \<open>
  \<open>x.toFixed(2)\<close> for \<open>0 \<le> x < 10^21\<close>: the integer \<open>n\<close> with \<open>n / 100\<close> nearest to \<open>x\<close>
  (the larger one of two), printed with two decimals.
\<close>

definition toFixed2 :: "real \<Rightarrow> string" where
  "toFixed2 x =
     (let n = nat \<lfloor>x * 100 + 1 / 2\<rfloor> in
      toString (n div 100) @ ''.'' @ [digitChar (n mod 100 div 10), digitChar (n mod 10)])"

text \<open>
  The string of a number with at most two decimals, as \<open>+ ' '\<close> converts it: no
  trailing zeros, no point for an integer.
\<close>

definition numberToString :: "rat \<Rightarrow> string" where
  "numberToString r =
     (let n = nat \<lfloor>r * 100\<rfloor> in
      toString (n div 100) @
        (if n mod 100 = 0 then []
         else if n mod 10 = 0 then ''.'' @ [digitChar (n mod 100 div 10)]
         else ''.'' @ [digitChar (n mod 100 div 10), digitChar (n mod 10)]))"

text \<open>The digits that \<open>numberToString\<close> prints for \<open>n / 100\<close>.\<close>

definition hundredths :: "nat \<Rightarrow> string" where
  "hundredths n =
     toString (n div 100) @
       (if n mod 100 = 0 then []
        else if n mod 10 = 0 then ''.'' @ [digitChar (n mod 100 div 10)]
        else ''.'' @ [digitChar (n mod 100 div 10), digitChar (n mod 10)])"

text \<open>
  \<open>formatSize\<close> on a byte count. The language leaves the value of \<open>Math.log\<close> to the
  engine (an approximation of the logarithm, as a double), so the source does not fix the
  number that \<open>Math.log(bytes) / Math.log(k)\<close> evaluates to: it is the parameter
  \<open>logQuotient bytes\<close>. \<open>exactLog\<close> is the quotient of the exact logarithms. An engine's number
  is near it, and the two need not have the same floor: in double arithmetic, with the
  logarithm of the C library and of V8, \<open>Math.log(1024^5 - 1)\<close> is the same double as
  \<open>Math.log(1024^5)\<close> and the quotient is 5, where the exact quotient is below 5.
\<close>

definition exactLog :: "nat \<Rightarrow> real" where
  "exactLog bytes = ln (real bytes) / ln (real 1024)"

definition formatSize :: "(nat \<Rightarrow> real) \<Rightarrow> nat \<Rightarrow> string" where
  "formatSize logQuotient bytes =
     (if bytes = 0 then ''0 B''
      else
        let k = (1024 :: nat);
            i = \<lfloor>logQuotient bytes\<rfloor>
        in numberToString (parseFloat (toFixed2 (real bytes / real k powi i))) @ '' '' @ sizesAt i)"

text \<open>
  The spec's pattern for a size text, in its own words: a number (digits, optionally a
  point and more digits), then optional white space (a list of white space characters),
  then one of the five units in either case. \<open>sizeText\<close> is the text, \<open>sizeValue\<close> the
  byte count it denotes: the number times 1024 to the power of the unit's position in B,
  KB, MB, GB, TB.
\<close>

definition sizePattern :: "string \<Rightarrow> string \<Rightarrow> string list \<Rightarrow> string \<Rightarrow> bool" where
  "sizePattern ip fr ws u \<longleftrightarrow>
     ip \<noteq> [] \<and> list_all isDigit ip \<and> list_all isDigit fr
     \<and> list_all (\<lambda>w. w \<in> set whiteSpace) ws \<and> toUpperCase u \<in> set sizes"

definition sizeText :: "string \<Rightarrow> string \<Rightarrow> string list \<Rightarrow> string \<Rightarrow> string" where
  "sizeText ip fr ws u = ip @ (if fr = [] then [] else CHR ''.'' # fr) @ concat ws @ u"

definition unitExp :: "string \<Rightarrow> nat" where
  "unitExp u = length (takeWhile (\<lambda>x. x \<noteq> toUpperCase u) sizes)"

definition sizeValue :: "string \<Rightarrow> string \<Rightarrow> string \<Rightarrow> rat" where
  "sizeValue ip fr u =
     (of_nat (decimal ip) + of_nat (decimal fr) / 10 ^ length fr) * 1024 ^ unitExp u"


section \<open>More string operations\<close>

text \<open>\<open>s.split(sep)\<close> for a one-character separator: never the empty list.\<close>

fun splitOn :: "char \<Rightarrow> string \<Rightarrow> string list" where
  "splitOn sep [] = [[]]"
| "splitOn sep (c # cs) =
     (if c = sep then [] # splitOn sep cs
      else (case splitOn sep cs of p # ps \<Rightarrow> (c # p) # ps | [] \<Rightarrow> [[c]]))"

text \<open>\<open>parts.join(sep)\<close>.\<close>

fun joinWith :: "string \<Rightarrow> string list \<Rightarrow> string" where
  "joinWith sep [] = []"
| "joinWith sep [p] = p"
| "joinWith sep (p # q # ps) = p @ sep @ joinWith sep (q # ps)"

text \<open>
  \<open>parts.pop()\<close>: the last element and the list without it; \<open>undefined\<close>, which a
  template literal prints as that word, on the empty list.
\<close>

definition pop :: "string list \<Rightarrow> string \<times> string list" where
  "pop parts = (if parts = [] then (''undefined'', []) else (last parts, butlast parts))"

text \<open>
  \<open>s.trim()\<close>: the white space at the head and at the end is taken away. The characters
  at the end are found by reading the text, and the encodings, backwards.
\<close>

definition trim :: "string \<Rightarrow> string" where
  "trim s = rev (dropLeading (map rev whiteSpace) (rev (dropLeading whiteSpace s)))"

text \<open>\<open>s.replace(/\.\./g, '')\<close> and \<open>s.replace(/\/+/g, '/')\<close>.\<close>

fun removeDotDot :: "string \<Rightarrow> string" where
  "removeDotDot (a # b # r) =
     (if a = CHR ''.'' \<and> b = CHR ''.'' then removeDotDot r else a # removeDotDot (b # r))"
| "removeDotDot r = r"

fun collapseSlashes :: "string \<Rightarrow> string" where
  "collapseSlashes (a # b # r) =
     (if a = CHR ''/'' \<and> b = CHR ''/'' then collapseSlashes (b # r)
      else a # collapseSlashes (b # r))"
| "collapseSlashes r = r"

definition sanitize :: "string \<Rightarrow> string" where
  "sanitize uploadPath = collapseSlashes (removeDotDot uploadPath)"

text \<open>
  \<open>join(dir, entry)\<close> of the \<open>path\<close> module (POSIX): the arguments that are not empty
  are put together with a slash between them and the result is normalised.
  \<open>normalizeString\<close> reads the segments between the slashes from left to right, \<open>res\<close>
  being the segments kept so far: an empty segment and \<open>.\<close> are dropped, \<open>..\<close> takes the
  last segment kept away, unless there is none or it is \<open>..\<close> itself, when \<open>..\<close> is kept
  in a relative path and dropped in an absolute one.
\<close>

fun normalizeString :: "bool \<Rightarrow> string list \<Rightarrow> string list \<Rightarrow> string list" where
  "normalizeString allowAboveRoot res [] = res"
| "normalizeString allowAboveRoot res (seg # segs) =
     (if seg = [] \<or> seg = ''.'' then normalizeString allowAboveRoot res segs
      else if seg = ''..'' then
        (if res \<noteq> [] \<and> last res \<noteq> ''..''
         then normalizeString allowAboveRoot (butlast res) segs
         else if allowAboveRoot then normalizeString allowAboveRoot (res @ [''..'']) segs
         else normalizeString allowAboveRoot res segs)
      else normalizeString allowAboveRoot (res @ [seg]) segs)"

definition normalize :: "string \<Rightarrow> string" where
  "normalize path =
     (if path = [] then ''.''
      else
        let isAbsolute = (hd path = CHR ''/'');
            trailingSeparator = (last path = CHR ''/'');
            p = joinWith ''/'' (normalizeString (\<not> isAbsolute) [] (splitOn (CHR ''/'') path))
        in if p = [] then (if isAbsolute then ''/'' else if trailingSeparator then ''./'' else ''.'')
           else (if isAbsolute then ''/'' else []) @ p @ (if trailingSeparator then ''/'' else []))"

definition join :: "string \<Rightarrow> string \<Rightarrow> string" where
  "join dir entry =
     (if dir = [] \<and> entry = [] then ''.''
      else normalize (if dir = [] then entry else if entry = [] then dir
                      else dir @ ''/'' @ entry))"

subsection \<open>Numbers that \<open>parseInt\<close> returns\<close>

datatype number = NaN | Finite int

fun lt :: "number \<Rightarrow> number \<Rightarrow> bool" where
  "lt (Finite a) (Finite b) = (a < b)"
| "lt _ _ = False"

fun le :: "number \<Rightarrow> number \<Rightarrow> bool" where
  "le (Finite a) (Finite b) = (a \<le> b)"
| "le _ _ = False"

fun ge :: "number \<Rightarrow> number \<Rightarrow> bool" where
  "ge (Finite a) (Finite b) = (a \<ge> b)"
| "ge _ _ = False"

text \<open>Strict equality \<open>===\<close>.\<close>

fun seq :: "number \<Rightarrow> number \<Rightarrow> bool" where
  "seq (Finite a) (Finite b) = (a = b)"
| "seq _ _ = False"

fun plus :: "number \<Rightarrow> int \<Rightarrow> number" where
  "plus (Finite a) b = Finite (a + b)"
| "plus NaN b = NaN"

fun numberString :: "number \<Rightarrow> string" where
  "numberString NaN = ''NaN''"
| "numberString (Finite a) = (if a < 0 then ''-'' @ toString (nat (- a)) else toString (nat a))"

definition isHexDigit :: "char \<Rightarrow> bool" where
  "isHexDigit c = (let n = (of_char c :: nat) in
     (48 \<le> n \<and> n \<le> 57) \<or> (65 \<le> n \<and> n \<le> 70) \<or> (97 \<le> n \<and> n \<le> 102))"

definition hexVal :: "char \<Rightarrow> nat" where
  "hexVal c = (let n = (of_char c :: nat) in
     if n \<le> 57 then n - 48 else if n \<le> 70 then n - 55 else n - 87)"

text \<open>
  \<open>parseInt(s)\<close> with no radix: leading white space, a sign, the prefix \<open>0x\<close> for
  base 16, then the longest run of digits; \<open>NaN\<close> when there is none. The result is the
  exact integer (no rounding to a double).
\<close>

definition parseInt :: "string \<Rightarrow> number" where
  "parseInt s =
     (let t = skipSpaces s;
          neg = (t \<noteq> [] \<and> hd t = CHR ''-'');
          r = (if t \<noteq> [] \<and> (hd t = CHR ''-'' \<or> hd t = CHR ''+'') then tl t else t);
          hex = (case r of a # b # _ \<Rightarrow> a = CHR ''0'' \<and> (b = CHR ''x'' \<or> b = CHR ''X'') | _ \<Rightarrow> False);
          ds = (if hex then takeWhile isHexDigit (drop 2 r) else takeWhile isDigit r);
          v = (if hex then foldl (\<lambda>a c. 16 * a + hexVal c) 0 ds else decimal ds)
      in if ds = [] then NaN else Finite (if neg then - int v else int v))"

section \<open>The temp file name: \<open>Buffer.from(fileName).toString('base64')\<close> and the hash\<close>

definition b64chars :: string where
  "b64chars = ''ABCDEFGHIJKLMNOPQRSTUVWXYZabcdefghijklmnopqrstuvwxyz0123456789+/''"

definition b64 :: "nat \<Rightarrow> char" where
  "b64 i = b64chars ! (i mod 64)"

fun base64 :: "bytes \<Rightarrow> string" where
  "base64 [] = []"
| "base64 [a] =
     (let x = (of_char a :: nat) in [b64 (x div 4), b64 (x mod 4 * 16), CHR ''='', CHR ''=''])"
| "base64 [a, b] =
     (let x = (of_char a :: nat); y = (of_char b :: nat) in
      [b64 (x div 4), b64 (x mod 4 * 16 + y div 16), b64 (y mod 16 * 4), CHR ''=''])"
| "base64 (a # b # c # r) =
     (let x = (of_char a :: nat); y = (of_char b :: nat); z = (of_char c :: nat) in
      [b64 (x div 4), b64 (x mod 4 * 16 + y div 16), b64 (y mod 16 * 4 + z div 64), b64 (z mod 64)]
        @ base64 r)"

text \<open>\<open>.replace(/[^a-zA-Z0-9]/g, '').substring(0, 16)\<close> of the encoding.\<close>

definition fileHash :: "string \<Rightarrow> string" where
  "fileHash fileName = take 16 (filter isAlnum (base64 fileName))"

text \<open>The template \<open>temp_${fileHash}_${Date.now()}\<close>.\<close>

definition tempFileName :: "string \<Rightarrow> nat \<Rightarrow> string" where
  "tempFileName fileName now = ''temp_'' @ fileHash fileName @ ''_'' @ toString now"

text \<open>
  The spec's words for the hash, read literally: scan the encoding and keep the first
  \<open>n\<close> alphanumeric characters met.
\<close>

fun firstAlnums :: "nat \<Rightarrow> string \<Rightarrow> string" where
  "firstAlnums 0 s = []"
| "firstAlnums (Suc n) [] = []"
| "firstAlnums (Suc n) (c # s) =
     (if isAlnum c then c # firstAlnums n s else firstAlnums (Suc n) s)"

section \<open>The upload route (\<open>src/app/api/upload/route.ts\<close>)\<close>

text \<open>
  A \<open>File\<close> of a form: its name, its MIME type and its bytes (\<open>file.size\<close> is the
  length of the bytes). A file record of a response has the fields \<open>id\<close>, \<open>name\<close>,
  \<open>originalName\<close>, \<open>size\<close>, \<open>type\<close>, \<open>path\<close>, \<open>uploadedAt\<close> and \<open>sizeFormatted\<close>; those
  whose names are taken in HOL carry the prefix \<open>rec\<close>.
\<close>

record File =
  fname :: string
  ftype :: string
  fbytes :: bytes

record FileRecord =
  recId :: string
  recName :: string
  originalName :: string
  recSize :: nat
  recType :: string
  recPath :: string
  uploadedAt :: string
  sizeFormatted :: string

text \<open>
  The storage is a finite map from the paths of the files to their contents. Every call
  of the file system can throw, for whatever reason the system has (a missing parent
  directory, a path that is a directory, a full disk): \<open>fails env site\<close> is the message of
  the error thrown at that call site, if any, and a call that throws changes nothing.
  The directories of the storage belong to the environment of a request: \<open>directories env\<close>
  are those that exist once \<open>mkdir\<close> has returned, the upload directory among them in a
  real run; no later call of the request makes or removes a directory. The environment
  also holds the configured storage root and what the clock, the random generator and the
  logarithm return: \<open>now env k\<close> is the \<open>k\<close>-th reading of \<open>Date.now()\<close> during the
  request, \<open>random env k\<close> the \<open>k\<close>-th \<open>Math.random().toString(36).substring(2, 8)\<close>,
  \<open>isoNow env k\<close> the \<open>k\<close>-th \<open>new Date().toISOString()\<close>, and \<open>logk env bytes\<close> the number
  that \<open>Math.log(bytes) / Math.log(k)\<close> evaluates to in \<open>formatSize\<close>.
\<close>

type_synonym filesystem = "(string, bytes) fmap"

datatype io =
    AccessStorage | MkdirUpload | WriteUpload nat
  | WriteTemp | AppendTemp | RenameTemp | StatFinal | ReadTemp | WriteFinal | UnlinkTemp

record env =
  STORAGE_PATH :: string
  now :: "nat \<Rightarrow> nat"
  random :: "nat \<Rightarrow> string"
  isoNow :: "nat \<Rightarrow> string"
  fails :: "io \<Rightarrow> string option"
  directories :: "string fset"
  logk :: "nat \<Rightarrow> real"

text \<open>\<open>existsSync(path)\<close>: a file or a directory stands at the path.\<close>

definition existsSync :: "env \<Rightarrow> filesystem \<Rightarrow> string \<Rightarrow> bool" where
  "existsSync env fs p = (p |\<in>| fmdom fs \<or> p |\<in>| directories env)"

definition writeFile :: "env \<Rightarrow> io \<Rightarrow> filesystem \<Rightarrow> string \<Rightarrow> bytes \<Rightarrow> string + filesystem" where
  "writeFile env site fs p buffer =
     (case fails env site of Some e \<Rightarrow> Inl e | None \<Rightarrow> Inr (fmupd p buffer fs))"

definition appendFile :: "env \<Rightarrow> io \<Rightarrow> filesystem \<Rightarrow> string \<Rightarrow> bytes \<Rightarrow> string + filesystem" where
  "appendFile env site fs p buffer =
     (case fails env site of
        Some e \<Rightarrow> Inl e
      | None \<Rightarrow>
          Inr (fmupd p ((case fmlookup fs p of None \<Rightarrow> [] | Some old \<Rightarrow> old) @ buffer) fs))"

definition rename :: "env \<Rightarrow> io \<Rightarrow> filesystem \<Rightarrow> string \<Rightarrow> string \<Rightarrow> string + filesystem" where
  "rename env site fs src dst =
     (case fails env site of
        Some e \<Rightarrow> Inl e
      | None \<Rightarrow>
          (case fmlookup fs src of
             None \<Rightarrow> Inl ''ENOENT: no such file or directory''
           | Some c \<Rightarrow> Inr (fmupd dst c (fmdrop src fs))))"

definition stat :: "env \<Rightarrow> io \<Rightarrow> filesystem \<Rightarrow> string \<Rightarrow> string + nat" where
  "stat env site fs p =
     (case fails env site of
        Some e \<Rightarrow> Inl e
      | None \<Rightarrow>
          (case fmlookup fs p of
             None \<Rightarrow> Inl ''ENOENT: no such file or directory''
           | Some c \<Rightarrow> Inr (length c)))"

definition readFile :: "env \<Rightarrow> io \<Rightarrow> filesystem \<Rightarrow> string \<Rightarrow> string + bytes" where
  "readFile env site fs p =
     (case fails env site of
        Some e \<Rightarrow> Inl e
      | None \<Rightarrow>
          (case fmlookup fs p of
             None \<Rightarrow> Inl ''ENOENT: no such file or directory''
           | Some c \<Rightarrow> Inr c))"

definition unlink :: "env \<Rightarrow> io \<Rightarrow> filesystem \<Rightarrow> string \<Rightarrow> string + filesystem" where
  "unlink env site fs p =
     (case fails env site of
        Some e \<Rightarrow> Inl e
      | None \<Rightarrow>
          (case fmlookup fs p of
             None \<Rightarrow> Inl ''ENOENT: no such file or directory''
           | Some c \<Rightarrow> Inr (fmdrop p fs)))"

text \<open>
  The JSON bodies of the route, with the HTTP status of an error:
  \<^item> \<open>ErrorResponse status error\<close>;
  \<^item> \<open>ChunkResponse success message chunkIndex totalChunks completed\<close>, a chunk that is
    not the last one;
  \<^item> \<open>CompletedResponse success message files uploadPath completed\<close>, the last chunk;
  \<^item> \<open>UploadResponse success message files uploadPath\<close>, an upload of whole files.
\<close>

datatype response =
    ErrorResponse nat string
  | ChunkResponse bool string number number bool
  | CompletedResponse bool string "FileRecord list" string bool
  | UploadResponse bool string "FileRecord list" string

subsection \<open>The collision loop of the last chunk\<close>

text \<open>The candidate that the body of the \<open>while\<close> loop builds for a counter.\<close>

definition numbered :: "string \<Rightarrow> nat \<Rightarrow> string" where
  "numbered finalFileName counter =
     (let nameParts = splitOn (CHR ''.'') finalFileName;
          (extension, rest) = pop nameParts;
          baseName = joinWith ''.'' rest
      in baseName @ ''_'' @ toString counter @ ''.'' @ extension)"

function uniqueName ::
  "env \<Rightarrow> filesystem \<Rightarrow> string \<Rightarrow> string \<Rightarrow> string \<Rightarrow> nat \<Rightarrow> string" where
  "uniqueName env fs fullUploadPath finalFileName uniqueFileName counter =
     (if existsSync env fs (join fullUploadPath uniqueFileName)
      then uniqueName env fs fullUploadPath finalFileName (numbered finalFileName counter)
             (counter + 1)
      else uniqueFileName)"
  by pat_completeness auto

text \<open>
  The loop ends because the candidates of different counters stand at different paths,
  of which only finitely many are taken; the proof comes with the properties of the paths.
\<close>

subsection \<open>\<open>handleChunkedUpload\<close>\<close>

text \<open>The response of the outer \<open>catch\<close> block.\<close>

definition chunkFailure :: "number \<Rightarrow> string \<Rightarrow> response" where
  "chunkFailure chunkIndex e =
     ErrorResponse 500 (''Failed to upload chunk '' @ numberString (plus chunkIndex 1) @ '': '' @ e)"

definition chunkedRecord :: "env \<Rightarrow> File \<Rightarrow> string \<Rightarrow> string \<Rightarrow> string \<Rightarrow> nat \<Rightarrow> FileRecord" where
  "chunkedRecord env chunk sanitizedPath uniqueFileName fileName finalFileSize =
     \<lparr> recId = ''chunked_'' @ toString (now env 1) @ ''_'' @ random env 0,
       recName = uniqueFileName,
       originalName = fileName,
       recSize = finalFileSize,
       recType = ftype chunk,
       recPath = sanitizedPath @ ''/'' @ uniqueFileName,
       uploadedAt = isoNow env 0,
       sizeFormatted = formatSize (logk env) finalFileSize \<rparr>"

definition completed :: "env \<Rightarrow> File \<Rightarrow> string \<Rightarrow> string \<Rightarrow> string \<Rightarrow> nat \<Rightarrow> response" where
  "completed env chunk sanitizedPath uniqueFileName fileName finalFileSize =
     CompletedResponse True ''Chunked upload completed successfully''
       [chunkedRecord env chunk sanitizedPath uniqueFileName fileName finalFileSize]
       sanitizedPath True"

text \<open>
  The \<open>catch\<close> block of the rename: read the temp file, write the final file, try to
  delete the temp file.
\<close>

definition copyAndDelete ::
  "env \<Rightarrow> filesystem \<Rightarrow> File \<Rightarrow> number \<Rightarrow> string \<Rightarrow> string \<Rightarrow> string \<Rightarrow> string \<Rightarrow> string
     \<Rightarrow> response \<times> filesystem" where
  "copyAndDelete env fs chunk chunkIndex fileName sanitizedPath tempFilePath uniqueFileName
       finalUniquePath =
     (case readFile env ReadTemp fs tempFilePath of
        Inl e \<Rightarrow> (chunkFailure chunkIndex e, fs)
      | Inr completeFileBuffer \<Rightarrow>
          (case writeFile env WriteFinal fs finalUniquePath completeFileBuffer of
             Inl e \<Rightarrow> (chunkFailure chunkIndex e, fs)
           | Inr fs3 \<Rightarrow>
               (completed env chunk sanitizedPath uniqueFileName fileName
                  (length completeFileBuffer),
                case unlink env UnlinkTemp fs3 tempFilePath of Inl e \<Rightarrow> fs3 | Inr fs4 \<Rightarrow> fs4)))"

text \<open>
  The branch of the last chunk (\<open>chunkIndex === totalChunks - 1\<close>), entered with the
  storage as the write of the chunk left it.
\<close>

definition promote ::
  "env \<Rightarrow> filesystem \<Rightarrow> File \<Rightarrow> number \<Rightarrow> string \<Rightarrow> string \<Rightarrow> string \<Rightarrow> string
     \<Rightarrow> response \<times> filesystem" where
  "promote env fs1 chunk chunkIndex fileName sanitizedPath fullUploadPath tempFilePath =
     (let finalFileName = fileName;
          uniqueFileName = uniqueName env fs1 fullUploadPath finalFileName finalFileName 1;
          finalUniquePath = join fullUploadPath uniqueFileName
      in
      case rename env RenameTemp fs1 tempFilePath finalUniquePath of
        Inl e \<Rightarrow>
          copyAndDelete env fs1 chunk chunkIndex fileName sanitizedPath tempFilePath
            uniqueFileName finalUniquePath
      | Inr fs2 \<Rightarrow>
          (case stat env StatFinal fs2 finalUniquePath of
             Inl e \<Rightarrow>
               copyAndDelete env fs2 chunk chunkIndex fileName sanitizedPath tempFilePath
                 uniqueFileName finalUniquePath
           | Inr finalFileSize \<Rightarrow>
               (completed env chunk sanitizedPath uniqueFileName fileName finalFileSize, fs2)))"

definition handleChunkedUpload ::
  "env \<Rightarrow> filesystem \<Rightarrow> File \<Rightarrow> string \<Rightarrow> number \<Rightarrow> number \<Rightarrow> string \<Rightarrow> response \<times> filesystem" where
  "handleChunkedUpload env fs chunk uploadPath chunkIndex totalChunks fileName =
     (if lt chunkIndex (Finite 0) \<or> ge chunkIndex totalChunks then
        (ErrorResponse 400
           (''Invalid chunk index: '' @ numberString chunkIndex @ '' (must be 0-''
              @ numberString (plus totalChunks (- 1)) @ '')''), fs)
      else if le totalChunks (Finite 0) then
        (ErrorResponse 400 (''Invalid total chunks: '' @ numberString totalChunks), fs)
      else if fileName = [] \<or> trim fileName = [] then
        (ErrorResponse 400 ''Invalid filename provided'', fs)
      else
        let sanitizedPath = sanitize uploadPath;
            fullUploadPath = join (STORAGE_PATH env) sanitizedPath
        in
        case fails env MkdirUpload of
          Some e \<Rightarrow> (chunkFailure chunkIndex e, fs)
        | None \<Rightarrow>
            let tempFilePath = join fullUploadPath (tempFileName fileName (now env 0));
                buffer = fbytes chunk
            in
            case (if seq chunkIndex (Finite 0) then writeFile env WriteTemp fs tempFilePath buffer
                  else appendFile env AppendTemp fs tempFilePath buffer) of
              Inl e \<Rightarrow> (chunkFailure chunkIndex e, fs)
            | Inr fs1 \<Rightarrow>
                if seq chunkIndex (plus totalChunks (- 1)) then
                  promote env fs1 chunk chunkIndex fileName sanitizedPath fullUploadPath
                    tempFilePath
                else
                  (ChunkResponse True
                     (''Chunk '' @ numberString (plus chunkIndex 1) @ ''/''
                        @ numberString totalChunks @ '' uploaded successfully'')
                     chunkIndex totalChunks False, fs1))"

text \<open>
  Names for the parts of a chunked request that the properties below speak of: the
  directory of the upload, the path of the temp file, and the storage after the write
  (chunk 0) or the append (any other chunk) of the chunk's bytes.
\<close>

definition uploadDir :: "env \<Rightarrow> string \<Rightarrow> string" where
  "uploadDir env uploadPath = join (STORAGE_PATH env) (sanitize uploadPath)"

definition tempPath :: "env \<Rightarrow> string \<Rightarrow> string \<Rightarrow> string" where
  "tempPath env uploadPath fileName =
     join (uploadDir env uploadPath) (tempFileName fileName (now env 0))"

definition afterChunk :: "filesystem \<Rightarrow> string \<Rightarrow> number \<Rightarrow> bytes \<Rightarrow> filesystem" where
  "afterChunk fs p chunkIndex buffer =
     fmupd p (if seq chunkIndex (Finite 0) then buffer
              else (case fmlookup fs p of None \<Rightarrow> [] | Some old \<Rightarrow> old) @ buffer) fs"

text \<open>
  A run of chunked requests for one file name and one destination, handled one after
  the other: each request comes with its environment, its chunk, its \<open>chunkIndex\<close> and
  its \<open>totalChunks\<close>.
\<close>

fun serve ::
  "string \<Rightarrow> string \<Rightarrow> (env \<times> File \<times> number \<times> number) list \<Rightarrow> filesystem
     \<Rightarrow> response list \<times> filesystem" where
  "serve uploadPath fileName [] fs = ([], fs)"
| "serve uploadPath fileName ((env, chunk, chunkIndex, totalChunks) # reqs) fs =
     (case handleChunkedUpload env fs chunk uploadPath chunkIndex totalChunks fileName of
        (r, fs') \<Rightarrow>
          (case serve uploadPath fileName reqs fs' of (rs, fs'') \<Rightarrow> (r # rs, fs'')))"

text \<open>The names of the files that the completed responses of a run report.\<close>

fun completedNames :: "response list \<Rightarrow> string list" where
  "completedNames [] = []"
| "completedNames (CompletedResponse ok msg files p c # rs) =
     map recName files @ completedNames rs"
| "completedNames (r # rs) = completedNames rs"

text \<open>Whether a response is the completion of an upload.\<close>

fun isCompleted :: "response \<Rightarrow> bool" where
  "isCompleted (CompletedResponse ok msg files p c) = True"
| "isCompleted r = False"

text \<open>
  An environment in which no call fails, with the default storage root of the
  configuration, a clock that reads \<open>t\<close> during the whole request, the directories of an
  upload to \<open>Documents\<close>, and the exact quotient of the logarithms.
\<close>

definition calm :: "nat \<Rightarrow> env" where
  "calm t =
     \<lparr> STORAGE_PATH = ''/mnt/nas/storage'', now = (\<lambda>k. t), random = (\<lambda>k. ''k3x9qz''),
       isoNow = (\<lambda>k. ''2024-01-01T00:00:00.000Z''), fails = (\<lambda>site. None),
       directories = {|''/'', ''/mnt'', ''/mnt/nas'', ''/mnt/nas/storage'',
                       ''/mnt/nas/storage/Documents''|},
       logk = exactLog \<rparr>"

subsection \<open>\<open>POST\<close>: whole files, or the dispatch to \<open>handleChunkedUpload\<close>\<close>

text \<open>
  The fields of a multipart form: \<open>files\<close>, \<open>path\<close>, \<open>chunkIndex\<close>, \<open>totalChunks\<close> and
  \<open>fileName\<close>; \<open>None\<close> is a field that is absent (\<open>formData.get\<close> returns \<open>null\<close>).
\<close>

record FormData =
  fdFiles :: "File list"
  fdPath :: "string option"
  fdChunkIndex :: "string option"
  fdTotalChunks :: "string option"
  fdFileName :: "string option"

text \<open>
  \<open>name.replace(/\.[^/.]+$/, '')\<close>: the pattern can only match from the last point on,
  and does so when at least one character follows it and none of them is a slash.
\<close>

definition stripExtension :: "string \<Rightarrow> string" where
  "stripExtension s =
     (let parts = splitOn (CHR ''.'') s; ext = last parts in
      if 2 \<le> length parts \<and> ext \<noteq> [] \<and> CHR ''/'' \<notin> set ext
      then joinWith ''.'' (butlast parts) else s)"

text \<open>The name under which the loop of \<open>POST\<close> stores a file.\<close>

definition generatedName :: "string \<Rightarrow> nat \<Rightarrow> string \<Rightarrow> string" where
  "generatedName original timestamp randomSuffix =
     (let fileExtension = fst (pop (splitOn (CHR ''.'') original));
          baseName = stripExtension original
      in baseName @ ''_'' @ toString timestamp @ ''_'' @ randomSuffix @ ''.'' @ fileExtension)"

text \<open>The record that the loop of \<open>POST\<close> pushes for its \<open>i\<close>-th file.\<close>

definition uploadedRecord :: "env \<Rightarrow> string \<Rightarrow> nat \<Rightarrow> File \<Rightarrow> FileRecord" where
  "uploadedRecord env sanitizedPath i file =
     (let timestamp = now env i;
          randomSuffix = random env i;
          uniqueFileName = generatedName (fname file) timestamp randomSuffix
      in \<lparr> recId = toString timestamp @ ''_'' @ randomSuffix,
           recName = fname file,
           originalName = fname file,
           recSize = length (fbytes file),
           recType = ftype file,
           recPath = sanitizedPath @ ''/'' @ uniqueFileName,
           uploadedAt = isoNow env i,
           sizeFormatted = formatSize (logk env) (length (fbytes file)) \<rparr>)"

text \<open>
  The loop \<open>for (const file of files)\<close>, at its \<open>i\<close>-th file: the error message of the
  first write that throws, or the records pushed.
\<close>

fun storeFiles ::
  "env \<Rightarrow> string \<Rightarrow> string \<Rightarrow> nat \<Rightarrow> File list \<Rightarrow> filesystem \<Rightarrow> FileRecord list
     \<Rightarrow> (string + FileRecord list) \<times> filesystem" where
  "storeFiles env sanitizedPath fullUploadPath i [] fs uploadedFiles = (Inr uploadedFiles, fs)"
| "storeFiles env sanitizedPath fullUploadPath i (file # files) fs uploadedFiles =
     (let timestamp = now env i;
          randomSuffix = random env i;
          uniqueFileName = generatedName (fname file) timestamp randomSuffix;
          filePath = join fullUploadPath uniqueFileName
      in
      case writeFile env (WriteUpload i) fs filePath (fbytes file) of
        Inl e \<Rightarrow> (Inl (''Failed to upload '' @ fname file @ '': '' @ e), fs)
      | Inr fs' \<Rightarrow>
          storeFiles env sanitizedPath fullUploadPath (i + 1) files fs'
            (uploadedFiles @ [uploadedRecord env sanitizedPath i file]))"

definition POST :: "env \<Rightarrow> filesystem \<Rightarrow> FormData \<Rightarrow> response \<times> filesystem" where
  "POST env fs formData =
     (let files = fdFiles formData;
          uploadPath = (case fdPath formData of
                          None \<Rightarrow> ''/''
                        | Some p \<Rightarrow> if p = [] then ''/'' else p)
      in
      if files = [] then (ErrorResponse 400 ''No files provided'', fs)
      else
        case (fdChunkIndex formData, fdTotalChunks formData, fdFileName formData) of
          (Some chunkIndex, Some totalChunks, Some fileName) \<Rightarrow>
            handleChunkedUpload env fs (hd files) uploadPath (parseInt chunkIndex)
              (parseInt totalChunks) fileName
        | _ \<Rightarrow>
            let sanitizedPath = sanitize uploadPath;
                fullUploadPath = join (STORAGE_PATH env) sanitizedPath
            in
            case fails env AccessStorage of
              Some e \<Rightarrow>
                (ErrorResponse 500
                   (''Storage directory '' @ STORAGE_PATH env @ '' is not accessible''), fs)
            | None \<Rightarrow>
                (case fails env MkdirUpload of
                   Some e \<Rightarrow> (ErrorResponse 500 ''Failed to create upload directory'', fs)
                 | None \<Rightarrow>
                     (case storeFiles env sanitizedPath fullUploadPath 0 files fs [] of
                        (Inl e, fs') \<Rightarrow> (ErrorResponse 500 e, fs')
                      | (Inr uploadedFiles, fs') \<Rightarrow>
                          (UploadResponse True
                             (''Successfully uploaded '' @ toString (length uploadedFiles)
                                @ '' file(s)'')
                             uploadedFiles sanitizedPath, fs'))))"

section \<open>The uploader of the browser (\<open>FileUploader\<close> of the upload utility)\<close>

text \<open>
  \<open>CHUNK_SIZE\<close> is \<open>Math.max(1024 * 1024, StorageUtils.parseSize(NAS_CONFIG.CHUNK_SIZE))\<close>.
  The key \<open>CHUNK_SIZE\<close> is not among those of \<open>src/app/config/nas.ts\<close>, so the parsed
  value, a whole number of bytes, is the parameter \<open>configured\<close>.
\<close>

definition CHUNK_SIZE :: "nat \<Rightarrow> nat" where
  "CHUNK_SIZE configured = max (1024 * 1024) configured"

text \<open>\<open>blob.slice(start, end)\<close> on the bytes, and the \<open>File\<close> a form makes of a blob.\<close>

definition slice :: "bytes \<Rightarrow> nat \<Rightarrow> nat \<Rightarrow> bytes" where
  "slice b start end = take (end - start) (drop start b)"

definition blob :: "bytes \<Rightarrow> File" where
  "blob b = \<lparr> fname = ''blob'', ftype = [], fbytes = b \<rparr>"

text \<open>
  What a request comes to: \<open>fetch\<close> rejects with a message; or the status is not
  2xx (status and status text); or the body is not JSON (the message of the error); or
  the body is an object with \<open>success\<close>, \<open>completed\<close>, \<open>files\<close> (empty when absent) and
  \<open>error\<close> (empty when absent).
\<close>

datatype fetchResult =
    NetworkError string
  | HttpError nat string
  | BadJson string
  | Json bool bool "FileRecord list" string

text \<open>
  What the \<open>XMLHttpRequest\<close> of a small file comes to: the \<open>error\<close> event, the \<open>abort\<close>
  event, or \<open>load\<close> with a status, a status text and the parsed body (\<open>success\<close>,
  \<open>files\<close>, \<open>error\<close>), \<open>None\<close> when it does not parse.
\<close>

datatype xhrResult =
    XhrError
  | XhrAbort
  | XhrLoad nat string "(bool \<times> FileRecord list \<times> string) option"

text \<open>
  What the uploader does, in order: a \<open>fetch\<close> of a form, the \<open>send\<close> of a form by
  \<open>XMLHttpRequest\<close>, a wait of so many milliseconds, and a call
  \<open>onProgress({fileIndex, fileName, progress, uploaded, total, status, error})\<close>. The
  next action starts when the one before has settled (every one is awaited). The
  progress events of the browser while a small file is sent are left out.
\<close>

datatype event =
    Fetch FormData
  | Xhr FormData
  | Sleep nat
  | OnProgress nat string rat nat nat string "string option"

definition maxRetries :: nat where
  "maxRetries = 3"

text \<open>The body of the \<open>try\<close> block up to the test of \<open>result.success\<close>: the error thrown, or
  \<open>completed\<close> and \<open>files\<close> of a successful result.\<close>

fun tryFetch :: "fetchResult \<Rightarrow> string + (bool \<times> FileRecord list)" where
  "tryFetch (NetworkError m) = Inl m"
| "tryFetch (HttpError st txt) = Inl (''HTTP '' @ toString st @ '': '' @ txt)"
| "tryFetch (BadJson m) = Inl m"
| "tryFetch (Json success done files err) =
     (if success then Inr (done, files)
      else Inl (if err = [] then ''Chunk upload failed'' else err))"

definition chunkFormData :: "nat \<Rightarrow> File \<Rightarrow> string \<Rightarrow> nat \<Rightarrow> nat \<Rightarrow> FormData" where
  "chunkFormData chunkSize file uploadPath totalChunks chunkIndex =
     (let start = chunkIndex * chunkSize;
          end = min (start + chunkSize) (length (fbytes file));
          chunk = slice (fbytes file) start end
      in \<lparr> fdFiles = [blob chunk], fdPath = Some uploadPath,
           fdChunkIndex = Some (toString chunkIndex),
           fdTotalChunks = Some (toString totalChunks),
           fdFileName = Some (fname file) \<rparr>)"

text \<open>
  How one turn of the \<open>for\<close> loop ends: an error thrown out of \<open>uploadLargeFile\<close>, a
  record returned from it, or the next turn with the new \<open>uploadedChunks\<close>.
\<close>

datatype chunkOutcome = Thrown string | Returned FileRecord | Continue nat

text \<open>
  The call of \<open>onProgress\<close> after a chunk has been received, with \<open>uploadedChunks\<close>
  already counted up. The quotient and the products are exact rationals here; the source
  computes them in double precision, so that \<open>progress\<close> there is the double next to the
  value given here.
\<close>

definition chunkProgress :: "File \<Rightarrow> nat \<Rightarrow> nat \<Rightarrow> nat \<Rightarrow> event" where
  "chunkProgress file fileIndex totalChunks uploadedChunks =
     (let progress = (of_nat uploadedChunks / of_nat totalChunks) * 100;
          uploaded = nat \<lfloor>(of_nat uploadedChunks / of_nat totalChunks :: rat)
                           * of_nat (length (fbytes file))\<rfloor>
      in OnProgress fileIndex (fname file) progress uploaded (length (fbytes file))
           ''uploading'' None)"

text \<open>
  The \<open>while\<close> loop of a chunk, entered with \<open>chunkSuccess = false\<close>; \<open>net n\<close> is what
  the \<open>n\<close>-th \<open>fetch\<close> of the file comes to. The result is the events, the outcome and
  the number of \<open>fetch\<close> calls made so far.
\<close>

function sendChunk ::
  "(nat \<Rightarrow> fetchResult) \<Rightarrow> File \<Rightarrow> nat \<Rightarrow> nat \<Rightarrow> FormData \<Rightarrow> nat \<Rightarrow> nat \<Rightarrow> nat \<Rightarrow> nat
     \<Rightarrow> event list \<times> chunkOutcome \<times> nat" where
  "sendChunk net file fileIndex totalChunks formData chunkIndex n retryCount uploadedChunks =
     (if retryCount < maxRetries then
        (case tryFetch (net n) of
           Inr (done, files) \<Rightarrow>
             (let uploadedChunks' = uploadedChunks + 1;
                  evs = [Fetch formData,
                         chunkProgress file fileIndex totalChunks uploadedChunks']
              in if done \<and> files \<noteq> [] then (evs, Returned (hd files), n + 1)
                 else (evs, Continue uploadedChunks', n + 1))
         | Inl errorMessage \<Rightarrow>
             (let retryCount' = retryCount + 1 in
              if retryCount' \<ge> maxRetries then
                ([Fetch formData],
                 Thrown (''Chunk '' @ toString (chunkIndex + 1) @ '' failed after ''
                           @ toString maxRetries @ '' attempts: '' @ errorMessage),
                 n + 1)
              else
                (case sendChunk net file fileIndex totalChunks formData chunkIndex (n + 1)
                        retryCount' uploadedChunks of
                   (evs, r) \<Rightarrow> (Fetch formData # Sleep (1000 * retryCount') # evs, r))))
      else ([], Continue uploadedChunks, n))"
  by pat_completeness auto
termination
  by (relation "measure (\<lambda>(net, file, fileIndex, totalChunks, formData, chunkIndex, n,
        retryCount, uploadedChunks). maxRetries - retryCount)")
     (auto simp: maxRetries_def)

declare sendChunk.simps [simp del]

text \<open>
  The record that \<open>uploadLargeFile\<close> returns when the loop ends without a completed
  response.
\<close>

definition fallbackRecord :: "env \<Rightarrow> File \<Rightarrow> string \<Rightarrow> FileRecord" where
  "fallbackRecord env file uploadPath =
     \<lparr> recId = ''chunked_'' @ toString (now env 0) @ ''_'' @ random env 0,
       recName = fname file,
       originalName = fname file,
       recSize = length (fbytes file),
       recType = ftype file,
       recPath = uploadPath @ ''/'' @ fname file,
       uploadedAt = isoNow env 0,
       sizeFormatted = formatSize (logk env) (length (fbytes file)) \<rparr>"

text \<open>
  The \<open>for\<close> loop from \<open>chunkIndex\<close> on, after \<open>n\<close> calls of \<open>fetch\<close>. The list
  \<open>failedChunks\<close> is empty whenever the loop is left at its end, since the \<open>throw\<close> that
  follows every \<open>push\<close> leaves the function.
\<close>

function uploadChunks ::
  "env \<Rightarrow> (nat \<Rightarrow> fetchResult) \<Rightarrow> nat \<Rightarrow> File \<Rightarrow> string \<Rightarrow> nat \<Rightarrow> nat \<Rightarrow> nat \<Rightarrow> nat \<Rightarrow> nat
     \<Rightarrow> event list \<times> (string + FileRecord)" where
  "uploadChunks env net chunkSize file uploadPath fileIndex totalChunks chunkIndex n
       uploadedChunks =
     (if chunkIndex < totalChunks then
        (let formData = chunkFormData chunkSize file uploadPath totalChunks chunkIndex in
         case sendChunk net file fileIndex totalChunks formData chunkIndex n 0 uploadedChunks of
           (evs, Thrown m, n') \<Rightarrow> (evs, Inl m)
         | (evs, Returned r, n') \<Rightarrow> (evs, Inr r)
         | (evs, Continue uploadedChunks', n') \<Rightarrow>
             (case uploadChunks env net chunkSize file uploadPath fileIndex totalChunks
                     (chunkIndex + 1) n' uploadedChunks' of
                (evs', r) \<Rightarrow> (evs @ evs', r)))
      else ([], Inr (fallbackRecord env file uploadPath)))"
  by pat_completeness auto
termination
  by (relation "measure (\<lambda>(env, net, chunkSize, file, uploadPath, fileIndex, totalChunks,
        chunkIndex, n, uploadedChunks). totalChunks - chunkIndex)")
     auto

declare uploadChunks.simps [simp del]

definition uploadLargeFile ::
  "env \<Rightarrow> (nat \<Rightarrow> fetchResult) \<Rightarrow> nat \<Rightarrow> File \<Rightarrow> string \<Rightarrow> nat
     \<Rightarrow> event list \<times> (string + FileRecord)" where
  "uploadLargeFile env net chunkSize file uploadPath fileIndex =
     (let totalChunks = nat \<lceil>real (length (fbytes file)) / real chunkSize\<rceil> in
      uploadChunks env net chunkSize file uploadPath fileIndex totalChunks 0 0 0)"

definition uploadSmallFile ::
  "xhrResult \<Rightarrow> File \<Rightarrow> string \<Rightarrow> nat \<Rightarrow> event list \<times> (string + FileRecord)" where
  "uploadSmallFile xhr file uploadPath fileIndex =
     ([Xhr \<lparr> fdFiles = [file], fdPath = Some uploadPath, fdChunkIndex = None,
              fdTotalChunks = None, fdFileName = None \<rparr>],
      case xhr of
        XhrError \<Rightarrow> Inl ''Network error during upload''
      | XhrAbort \<Rightarrow> Inl ''Upload was aborted''
      | XhrLoad st txt body \<Rightarrow>
          if st = 200 then
            (case body of
               None \<Rightarrow> Inl ''Invalid response from server''
             | Some (success, files, err) \<Rightarrow>
                 if success \<and> files \<noteq> [] then Inr (hd files)
                 else Inl (if err = [] then ''Upload failed'' else err))
          else Inl (''HTTP '' @ toString st @ '': '' @ txt))"

text \<open>
  The loop of \<open>uploadFiles\<close> from its \<open>i\<close>-th file on: \<open>net i\<close> and \<open>xhr i\<close> are what the
  requests for that file come to. The result is the events, \<open>hasError\<close> and \<open>results\<close>.
\<close>

fun uploadLoop ::
  "env \<Rightarrow> (nat \<Rightarrow> nat \<Rightarrow> fetchResult) \<Rightarrow> (nat \<Rightarrow> xhrResult) \<Rightarrow> nat \<Rightarrow> string \<Rightarrow> nat
     \<Rightarrow> File list \<Rightarrow> event list \<times> bool \<times> FileRecord list" where
  "uploadLoop env net xhr chunkSize uploadPath i [] = ([], False, [])"
| "uploadLoop env net xhr chunkSize uploadPath i (file # files) =
     (let total = length (fbytes file);
          (evs, r) =
            (if total > chunkSize
             then uploadLargeFile env (net i) chunkSize file uploadPath i
             else uploadSmallFile (xhr i) file uploadPath i);
          (evs', hasError, results) = uploadLoop env net xhr chunkSize uploadPath (i + 1) files
      in
      ([OnProgress i (fname file) 0 0 total ''pending'' None,
        OnProgress i (fname file) 0 0 total ''uploading'' None]
         @ evs
         @ [case r of
              Inr uploaded \<Rightarrow> OnProgress i (fname file) 100 total total ''completed'' None
            | Inl errorMessage \<Rightarrow>
                OnProgress i (fname file) 0 0 total ''error'' (Some errorMessage)]
         @ evs',
       (case r of Inr uploaded \<Rightarrow> hasError | Inl errorMessage \<Rightarrow> True),
       (case r of Inr uploaded \<Rightarrow> uploaded # results | Inl errorMessage \<Rightarrow> results)))"

text \<open>
  \<open>uploadFiles\<close> with the configured chunk size: the events, and the error thrown or
  the \<open>files\<close>, \<open>message\<close> and \<open>uploadPath\<close> of the result.
\<close>

definition uploadFiles ::
  "env \<Rightarrow> (nat \<Rightarrow> nat \<Rightarrow> fetchResult) \<Rightarrow> (nat \<Rightarrow> xhrResult) \<Rightarrow> nat \<Rightarrow> File list \<Rightarrow> string
     \<Rightarrow> event list \<times> (string + FileRecord list \<times> string \<times> string)" where
  "uploadFiles env net xhr configured files uploadPath =
     (case uploadLoop env net xhr (CHUNK_SIZE configured) uploadPath 0 files of
        (evs, hasError, results) \<Rightarrow>
          (evs,
           if hasError then Inl ''Some files failed to upload''
           else Inr (results,
                     ''Successfully uploaded '' @ toString (length files) @ '' file(s)'',
                     uploadPath)))"

text \<open>The requests among the events, in the order they were sent.\<close>

fun requests :: "event list \<Rightarrow> FormData list" where
  "requests [] = []"
| "requests (Fetch fd # evs) = fd # requests evs"
| "requests (Xhr fd # evs) = fd # requests evs"
| "requests (ev # evs) = requests evs"

section \<open>Properties of the string operations\<close>

lemma digitVal_digitChar: "d < 10 \<Longrightarrow> digitVal (digitChar d) = d"
  by (simp add: digitVal_def digitChar_def)

lemma isDigit_digitChar: "d < 10 \<Longrightarrow> isDigit (digitChar d)"
  by (simp add: isDigit_def digitChar_def)

lemma digitChar_simps:
  "digitChar 0 = CHR ''0''" "digitChar (Suc 0) = CHR ''1''" "digitChar 2 = CHR ''2''"
  "digitChar 3 = CHR ''3''" "digitChar 4 = CHR ''4''" "digitChar 5 = CHR ''5''"
  "digitChar 6 = CHR ''6''" "digitChar 7 = CHR ''7''" "digitChar 8 = CHR ''8''"
  "digitChar 9 = CHR ''9''"
  by (simp_all add: digitChar_def char_of_def bit_0)

lemma decimal_snoc: "decimal (ds @ [c]) = 10 * decimal ds + digitVal c"
  by (simp add: decimal_def)

lemma decimal_toString: "decimal (toString n) = n"
proof (induction n rule: toString.induct)
  case (1 n)
  show ?case
  proof (cases "n < 10")
    case True
    then show ?thesis
      by (subst toString.simps) (simp add: decimal_def digitVal_digitChar)
  next
    case False
    with 1 show ?thesis
      by (subst toString.simps) (simp add: decimal_snoc digitVal_digitChar)
  qed
qed

lemma toString_inj: "toString m = toString n \<Longrightarrow> m = n"
  by (metis decimal_toString)

lemma toString_digits: "list_all isDigit (toString n)"
proof (induction n rule: toString.induct)
  case (1 n)
  then show ?case
    by (subst toString.simps) (simp add: isDigit_digitChar)
qed

lemma toString_nonempty: "toString n \<noteq> []"
  by (subst toString.simps) simp

lemma takeWhile_all_then:
  "list_all P xs \<Longrightarrow> ys = [] \<or> \<not> P (hd ys) \<Longrightarrow> takeWhile P (xs @ ys) = xs"
  by (induction xs) (cases ys; auto)+

lemma dropWhile_all_then:
  "list_all P xs \<Longrightarrow> ys = [] \<or> \<not> P (hd ys) \<Longrightarrow> dropWhile P (xs @ ys) = ys"
  by (induction xs) (cases ys; auto)+

lemma takeWhile_all: "list_all P xs \<Longrightarrow> takeWhile P xs = xs"
  using takeWhile_all_then [of P xs "[]"] by simp

lemma dropWhile_all: "list_all P xs \<Longrightarrow> dropWhile P xs = []"
  using dropWhile_all_then [of P xs "[]"] by simp

lemma isDigit_point: "\<not> isDigit (CHR ''.'')"
  by (simp add: isDigit_def)

section \<open>White space\<close>

lemma whiteSpace_heads:
  "\<forall>w\<in>set whiteSpace.
      w \<noteq> [] \<and> \<not> isDigit (hd w) \<and> hd w \<noteq> CHR ''.''
      \<and> ((of_char (hd w) :: nat) < 64 \<or> 128 \<le> (of_char (hd w) :: nat))"
  unfolding whiteSpace_def by (simp add: isDigit_def)

lemma whiteSpace_find:
  "\<forall>w\<in>set whiteSpace.
      find (\<lambda>v. v \<noteq> [] \<and> take (length v) (w @ r) = v) whiteSpace = Some w"
  unfolding whiteSpace_def by simp

lemma whiteSpace_head:
  assumes "w \<in> set whiteSpace"
  shows "w \<noteq> [] \<and> \<not> isDigit (hd w) \<and> hd w \<noteq> CHR ''.''"
  using whiteSpace_heads assms by blast

lemma find_whiteSpace:
  assumes "w \<in> set whiteSpace"
  shows "find (\<lambda>v. v \<noteq> [] \<and> take (length v) (w @ r) = v) whiteSpace = Some w"
  using whiteSpace_find assms by blast

text \<open>No white space begins with an ASCII letter.\<close>

lemma find_letter:
  assumes "64 < (of_char c :: nat)" "(of_char c :: nat) < 128"
  shows "find (\<lambda>v. v \<noteq> [] \<and> take (length v) (c # cs) = v) whiteSpace = None"
proof -
  have "\<not> (w \<noteq> [] \<and> take (length w) (c # cs) = w)" if w: "w \<in> set whiteSpace" for w
  proof
    assume a: "w \<noteq> [] \<and> take (length w) (c # cs) = w"
    then have "hd w = c" by (cases w) auto
    with whiteSpace_heads w assms show False by auto
  qed
  then show ?thesis by (simp add: find_None_iff)
qed

lemma dropLeading_none:
  "find (\<lambda>v. v \<noteq> [] \<and> take (length v) s = v) table = None \<Longrightarrow> dropLeading table s = s"
  by (subst dropLeading.simps) simp

lemma dropLeading_some:
  "find (\<lambda>v. v \<noteq> [] \<and> take (length v) s = v) table = Some w \<Longrightarrow>
   dropLeading table s = dropLeading table (drop (length w) s)"
  by (subst dropLeading.simps) simp

lemma dropLeading_whiteSpace:
  assumes "list_all (\<lambda>w. w \<in> set whiteSpace) ws"
  shows "dropLeading whiteSpace (concat ws @ u) = dropLeading whiteSpace u"
  using assms
proof (induction ws)
  case Nil
  show ?case by simp
next
  case (Cons w ws)
  then have w: "w \<in> set whiteSpace" and ws: "list_all (\<lambda>w. w \<in> set whiteSpace) ws"
    by simp_all
  have "dropLeading whiteSpace (w @ concat ws @ u) = dropLeading whiteSpace (concat ws @ u)"
    using dropLeading_some [OF find_whiteSpace [OF w, of "concat ws @ u"]] by simp
  with Cons.IH [OF ws] show ?case by simp
qed

text \<open>What \<open>dropLeading\<close> takes away is a list of characters of the table.\<close>

lemma dropLeading_taken:
  "\<exists>ws. list_all (\<lambda>w. w \<in> set table) ws \<and> s = concat ws @ dropLeading table s"
proof (induction table s rule: dropLeading.induct)
  case (1 table s)
  show ?case
  proof (cases "find (\<lambda>w. w \<noteq> [] \<and> take (length w) s = w) table")
    case None
    then have "dropLeading table s = s" by (rule dropLeading_none)
    then show ?thesis by (intro exI [of _ "[]"]) simp
  next
    case (Some w)
    then have w: "w \<in> set table" "take (length w) s = w"
      by (auto simp: find_Some_iff)
    from 1 [OF Some] obtain ws where ws: "list_all (\<lambda>w. w \<in> set table) ws"
      "drop (length w) s = concat ws @ dropLeading table (drop (length w) s)"
      by blast
    have d: "dropLeading table s = dropLeading table (drop (length w) s)"
      by (rule dropLeading_some [OF Some])
    have "s = take (length w) s @ drop (length w) s" by simp
    also have "\<dots> = w @ concat ws @ dropLeading table s"
      using w(2) ws(2) d by simp
    finally have "s = concat (w # ws) @ dropLeading table s" by simp
    moreover have "list_all (\<lambda>w. w \<in> set table) (w # ws)" using w(1) ws(1) by simp
    ultimately show ?thesis by blast
  qed
qed

text \<open>A text of white space only is trimmed to the empty text.\<close>

lemma trim_whiteSpace:
  assumes "list_all (\<lambda>w. w \<in> set whiteSpace) ws"
  shows "trim (concat ws) = []"
proof -
  have "find (\<lambda>v. v \<noteq> [] \<and> take (length v) [] = v) table = None" for table :: "string list"
    by (induction table) auto
  then have e: "dropLeading table [] = []" for table
    by (rule dropLeading_none)
  have "dropLeading whiteSpace (concat ws) = []"
    using dropLeading_whiteSpace [OF assms, of "[]"] e by simp
  then show ?thesis by (simp add: trim_def e)
qed

section \<open>The size codec\<close>

lemma toUpper_unit_letter:
  "toUpper c \<in> {CHR ''B'', CHR ''K'', CHR ''M'', CHR ''G'', CHR ''T''} \<Longrightarrow>
   \<not> isDigit c \<and> c \<noteq> CHR ''.'' \<and> 64 < (of_char c :: nat) \<and> (of_char c :: nat) < 128"
  by (auto simp: toUpper_def isDigit_def Let_def split: if_splits)

lemma unit_head:
  assumes "toUpperCase u \<in> set sizes"
  shows "u \<noteq> [] \<and> \<not> isDigit (hd u) \<and> hd u \<noteq> CHR ''.'' \<and> skipSpaces u = u"
proof (cases u)
  case Nil
  with assms show ?thesis by (simp add: toUpperCase_def sizes_def)
next
  case (Cons c cs)
  with assms have "toUpper c \<in> {CHR ''B'', CHR ''K'', CHR ''M'', CHR ''G'', CHR ''T''}"
    by (auto simp: toUpperCase_def sizes_def)
  from toUpper_unit_letter [OF this] show ?thesis
    using Cons dropLeading_none [OF find_letter, of c cs] by (simp add: skipSpaces_def)
qed

lemma space_unit_head:
  assumes "list_all (\<lambda>w. w \<in> set whiteSpace) ws" "toUpperCase u \<in> set sizes"
  shows "concat ws @ u \<noteq> [] \<and> \<not> isDigit (hd (concat ws @ u))
    \<and> hd (concat ws @ u) \<noteq> CHR ''.''"
proof (cases ws)
  case Nil
  then show ?thesis using unit_head [OF assms(2)] by simp
next
  case (Cons w ws')
  with assms(1) have "w \<in> set whiteSpace" by simp
  from whiteSpace_head [OF this] show ?thesis using Cons by simp
qed

lemma units_lookup:
  assumes "toUpperCase u \<in> set sizes"
  shows "map_of units (toUpperCase u) = Some (1024 ^ unitExp u)"
  using assms by (auto simp: sizes_def units_def unitExp_def)

lemma parseFloat_digits:
  assumes "list_all isDigit ip"
  shows "parseFloat ip = of_nat (decimal ip)"
  by (simp add: parseFloat_def takeWhile_all [OF assms] dropWhile_all [OF assms])

lemma parseFloat_fraction:
  assumes ip: "list_all isDigit ip" and fr: "list_all isDigit fr"
  shows "parseFloat (ip @ CHR ''.'' # fr) = of_nat (decimal ip) + of_nat (decimal fr) / 10 ^ length fr"
proof -
  have "takeWhile isDigit (ip @ CHR ''.'' # fr) = ip"
    by (rule takeWhile_all_then [OF ip]) (simp add: isDigit_point)
  moreover have "dropWhile isDigit (ip @ CHR ''.'' # fr) = CHR ''.'' # fr"
    by (rule dropWhile_all_then [OF ip]) (simp add: isDigit_point)
  ultimately show ?thesis
    by (simp add: parseFloat_def takeWhile_all [OF fr])
qed

lemma matchSize_pattern:
  assumes "sizePattern ip fr ws u"
  shows "matchSize (sizeText ip fr ws u) = Some (ip @ (if fr = [] then [] else CHR ''.'' # fr), u)"
proof -
  from assms have ip: "list_all isDigit ip" "ip \<noteq> []" and fr: "list_all isDigit fr"
    and ws: "list_all (\<lambda>w. w \<in> set whiteSpace) ws" and u: "toUpperCase u \<in> set sizes"
    by (simp_all add: sizePattern_def)
  note uh = unit_head [OF u]
  note sh = space_unit_head [OF ws u]
  have wsu: "concat ws @ u = [] \<or> \<not> isDigit (hd (concat ws @ u))"
    using sh by simp
  have dw: "skipSpaces (concat ws @ u) = u"
    using dropLeading_whiteSpace [OF ws, of u] uh by (simp add: skipSpaces_def)
  show ?thesis
  proof (cases "fr = []")
    case True
    have "takeWhile isDigit (ip @ concat ws @ u) = ip"
      "dropWhile isDigit (ip @ concat ws @ u) = concat ws @ u"
      using takeWhile_all_then [OF ip(1) wsu] dropWhile_all_then [OF ip(1) wsu] by simp_all
    then show ?thesis
      using True ip(2) dw u sh
      by (cases "concat ws @ u") (auto simp: matchSize_def sizeText_def sizes_def)
  next
    case False
    have "takeWhile isDigit (ip @ CHR ''.'' # fr @ concat ws @ u) = ip"
      by (rule takeWhile_all_then [OF ip(1)]) (simp add: isDigit_point)
    moreover have "dropWhile isDigit (ip @ CHR ''.'' # fr @ concat ws @ u)
        = CHR ''.'' # fr @ concat ws @ u"
      by (rule dropWhile_all_then [OF ip(1)]) (simp add: isDigit_point)
    moreover have "takeWhile isDigit (fr @ concat ws @ u) = fr"
      "dropWhile isDigit (fr @ concat ws @ u) = concat ws @ u"
      using takeWhile_all_then [OF fr wsu] dropWhile_all_then [OF fr wsu] by simp_all
    ultimately show ?thesis
      using False ip(2) dw u
      by (simp add: matchSize_def sizeText_def sizes_def)
  qed
qed

lemma parseSize_pattern:
  assumes "sizePattern ip fr ws u"
  shows "parseSize (sizeText ip fr ws u) = sizeValue ip fr u"
proof -
  from assms have ip: "list_all isDigit ip" and fr: "list_all isDigit fr"
    and u: "toUpperCase u \<in> set sizes"
    by (simp_all add: sizePattern_def)
  have "parseFloat (ip @ (if fr = [] then [] else CHR ''.'' # fr))
      = of_nat (decimal ip) + of_nat (decimal fr) / 10 ^ length fr"
    using parseFloat_digits [OF ip] parseFloat_fraction [OF ip fr]
    by (simp add: decimal_def)
  then show ?thesis
    by (simp add: parseSize_def matchSize_pattern [OF assms] units_lookup [OF u] sizeValue_def)
qed

lemma matchSize_Some:
  assumes "matchSize s = Some (num, u)"
  shows "\<exists>ip fr ws. sizePattern ip fr ws u \<and> s = sizeText ip fr ws u"
proof -
  define ip where "ip = takeWhile isDigit s"
  define r1 where "r1 = dropWhile isDigit s"
  have s: "s = ip @ r1" by (simp add: ip_def r1_def)
  have ipd: "list_all isDigit ip"
    unfolding ip_def list_all_iff using set_takeWhileD by fastforce
  from assms have ne: "ip \<noteq> []"
    by (auto simp: matchSize_def Let_def ip_def split: if_splits)
  show ?thesis
  proof (cases "\<exists>fs. r1 = CHR ''.'' # fs \<and> takeWhile isDigit fs \<noteq> []")
    case True
    then obtain fs where r1: "r1 = CHR ''.'' # fs" and fne: "takeWhile isDigit fs \<noteq> []" by blast
    define fr where "fr = takeWhile isDigit fs"
    define r2 where "r2 = dropWhile isDigit fs"
    have frd: "list_all isDigit fr"
      unfolding fr_def list_all_iff using set_takeWhileD by fastforce
    from assms r1 fne ne have u: "u = skipSpaces r2" "toUpperCase u \<in> set sizes"
      by (auto simp: matchSize_def Let_def ip_def [symmetric] r1_def [symmetric] r2_def sizes_def
          split: if_splits)
    from dropLeading_taken [of whiteSpace r2] obtain ws
      where ws: "list_all (\<lambda>w. w \<in> set whiteSpace) ws" "r2 = concat ws @ u"
      unfolding u(1) skipSpaces_def by blast
    have "fs = fr @ r2" by (simp add: fr_def r2_def)
    then have "s = ip @ CHR ''.'' # fr @ concat ws @ u"
      using s r1 ws(2) by simp
    then show ?thesis
      using ne ipd frd ws(1) u(2) fne
      by (intro exI [of _ ip] exI [of _ fr] exI [of _ ws])
         (simp add: sizePattern_def sizeText_def fr_def)
  next
    case False
    from assms False ne have u: "u = skipSpaces r1" "toUpperCase u \<in> set sizes"
      by (auto simp: matchSize_def Let_def ip_def [symmetric] r1_def [symmetric] sizes_def
          split: if_splits list.splits)
    from dropLeading_taken [of whiteSpace r1] obtain ws
      where ws: "list_all (\<lambda>w. w \<in> set whiteSpace) ws" "r1 = concat ws @ u"
      unfolding u(1) skipSpaces_def by blast
    have "s = ip @ concat ws @ u"
      using s ws(2) by simp
    then show ?thesis
      using ne ipd ws(1) u(2)
      by (intro exI [of _ ip] exI [of _ "[]"] exI [of _ ws])
         (simp add: sizePattern_def sizeText_def)
  qed
qed

lemma parseSize_no_match:
  assumes "\<not> (\<exists>ip fr ws u. sizePattern ip fr ws u \<and> s = sizeText ip fr ws u)"
  shows "parseSize s = 0"
proof (cases "matchSize s")
  case None
  then show ?thesis by (simp add: parseSize_def)
next
  case (Some p)
  then obtain num u where "matchSize s = Some (num, u)" by (cases p) simp
  from matchSize_Some [OF this] assms show ?thesis by blast
qed

lemma parseFloat_toFixed2:
  "parseFloat (toFixed2 x) = of_nat (nat \<lfloor>x * 100 + 1 / 2\<rfloor>) / 100"
proof -
  define n where "n = nat \<lfloor>x * 100 + 1 / 2\<rfloor>"
  let ?fr = "[digitChar (n mod 100 div 10), digitChar (n mod 10)]"
  have fr: "list_all isDigit ?fr"
    by (simp add: isDigit_digitChar)
  have "n mod 100 mod 10 = n mod 10"
    by (simp add: mod_mod_cancel)
  moreover have "n mod 100 = n mod 100 div 10 * 10 + n mod 100 mod 10"
    by (simp only: div_mult_mod_eq)
  ultimately have "decimal ?fr = n mod 100"
    by (simp add: decimal_def digitVal_digitChar)
  then have "parseFloat (toString (n div 100) @ CHR ''.'' # ?fr)
      = of_nat (n div 100) + of_nat (n mod 100) / 100"
    using parseFloat_fraction [OF toString_digits fr, of "n div 100"]
    by (simp add: decimal_toString)
  also have "\<dots> = of_nat n / 100"
  proof -
    have "(of_nat n :: rat) = of_nat (n div 100 * 100 + n mod 100)" by simp
    also have "\<dots> = of_nat (n div 100) * 100 + of_nat (n mod 100)"
      by (simp only: of_nat_add of_nat_mult of_nat_numeral)
    finally show ?thesis by (simp add: field_simps)
  qed
  finally show ?thesis
    by (simp add: toFixed2_def n_def [symmetric] Let_def)
qed

lemma numberToString_hundredths: "numberToString (of_nat n / 100) = hundredths n"
  by (simp add: numberToString_def hundredths_def Let_def)

lemma round_hundredths:
  "nat \<lfloor>real b / real c * 100 + 1 / 2\<rfloor> = (200 * b + c) div (2 * c)" if "0 < c"
proof -
  have "real b / real c * 100 + 1 / 2 = real (200 * b + c) / real (2 * c)"
    using that by (simp add: field_simps)
  then show ?thesis
    by (simp only: floor_divide_of_nat_eq nat_int)
qed

text \<open>The exact quotient of the logarithms and the powers of 1024.\<close>

lemma exactLog_index:
  assumes "1024 ^ i \<le> b" "b < 1024 ^ (i + 1)"
  shows "\<lfloor>exactLog b\<rfloor> = int i"
  using floor_log_nat_eq_if [of 1024 i b] assms by (simp add: log_def exactLog_def)




text \<open>The text that \<open>formatSize\<close> returns when the index is not negative.\<close>

lemma formatSize_eq:
  assumes "\<lfloor>q b\<rfloor> = int i" "b \<noteq> 0"
  shows "formatSize q b
    = hundredths ((200 * b + 1024 ^ i) div (2 * 1024 ^ i)) @ '' '' @ sizesAt (int i)"
proof -
  have n: "nat \<lfloor>real b / real (1024 ^ i) * 100 + 1 / 2\<rfloor> = (200 * b + 1024 ^ i) div (2 * 1024 ^ i)"
    by (rule round_hundredths) simp
  have p: "real 1024 powi int i = real (1024 ^ i)" by simp
  have "formatSize q b =
      numberToString (parseFloat (toFixed2 (real b / real (1024 ^ i)))) @ '' '' @ sizesAt (int i)"
    using assms(2) by (simp only: formatSize_def Let_def assms(1) if_False p)
  then show ?thesis
    by (simp only: parseFloat_toFixed2 n numberToString_hundredths)
qed




lemma formatSize_0: "formatSize q 0 = ''0 B''"
  by (simp add: formatSize_def)

lemma formatSize_5MB:
  assumes "\<lfloor>q 5242880\<rfloor> = 2"
  shows "formatSize q 5242880 = ''5 MB''"
  using formatSize_eq [of q 5242880 2] assms
  by (simp add: hundredths_def sizesAt_def sizes_def toString.simps digitChar_simps)

lemma exactLog_5MB: "\<lfloor>exactLog 5242880\<rfloor> = 2"
  using exactLog_index [of 2 5242880] by simp



lemma parseSize_5MB: "parseSize ''5MB'' = 5242880"
  by (simp add: parseSize_def matchSize_def isDigit_def skipSpaces_def dropLeading.simps
      whiteSpace_def toUpperCase_def toUpper_def units_def parseFloat_def decimal_def digitVal_def)

lemma matchSize_megabytes: "matchSize ''5 megabytes'' = None"
  by (simp add: matchSize_def isDigit_def skipSpaces_def dropLeading.simps whiteSpace_def
      toUpperCase_def toUpper_def)

lemma parseSize_nbsp: "parseSize (''5'' @ [CHR 0xC2, CHR 0xA0] @ ''MB'') = 5242880"
  by (simp add: parseSize_def matchSize_def isDigit_def skipSpaces_def dropLeading.simps
      whiteSpace_def toUpperCase_def toUpper_def units_def parseFloat_def decimal_def digitVal_def)

text \<open>
  Claim C8. \<open>parseSize\<close> accepts exactly the texts made of a number, optional white
  space and one of the units B, KB, MB, GB, TB in either case, and returns the number
  times the unit's power of 1024; on every other text it returns 0. In particular
  \<open>parseSize("5MB")\<close> is 5242880, \<open>formatSize(0)\<close> is \<open>0 B\<close> and \<open>formatSize(5242880)\<close> is
  \<open>5 MB\<close>, the index of the unit being 2, as the floor of the exact quotient of the
  logarithms is.
\<close>

theorem size_codec:
  "(sizePattern ip fr ws u \<longrightarrow> parseSize (sizeText ip fr ws u) = sizeValue ip fr u)
   \<and> ((\<nexists>ip fr ws u. sizePattern ip fr ws u \<and> s = sizeText ip fr ws u) \<longrightarrow> parseSize s = 0)
   \<and> parseSize ''5MB'' = 5242880
   \<and> formatSize q 0 = ''0 B''
   \<and> (\<lfloor>q 5242880\<rfloor> = 2 \<longrightarrow> formatSize q 5242880 = ''5 MB'')
   \<and> \<lfloor>exactLog 5242880\<rfloor> = 2"
  using parseSize_pattern parseSize_no_match [of s] parseSize_5MB formatSize_0 formatSize_5MB
    exactLog_5MB
  by blast

theorem size_codec_witness:
  "sizePattern ''1'' ''5'' ['' ''] ''kb''
   \<and> parseSize ''1.5 kb'' = 1536
   \<and> sizePattern ''5'' [] [[CHR 0xC2, CHR 0xA0]] ''MB''
   \<and> parseSize (''5'' @ [CHR 0xC2, CHR 0xA0] @ ''MB'') = 5242880
   \<and> (\<nexists>ip fr ws u. sizePattern ip fr ws u \<and> ''5 megabytes'' = sizeText ip fr ws u)
   \<and> parseSize ''5 megabytes'' = 0
   \<and> formatSize exactLog 5242880 = ''5 MB''"
proof -
  have p: "sizePattern ''1'' ''5'' ['' ''] ''kb''"
    by (simp add: sizePattern_def isDigit_def whiteSpace_def toUpperCase_def toUpper_def
        sizes_def char_of_def bit_0)
  have v: "sizeValue ''1'' ''5'' ''kb'' = 1536"
    by (simp add: sizeValue_def unitExp_def sizes_def toUpperCase_def toUpper_def decimal_def
        digitVal_def char_of_def bit_0)
  have t: "sizeText ''1'' ''5'' ['' ''] ''kb'' = ''1.5 kb''"
    by (simp add: sizeText_def)
  have p': "sizePattern ''5'' [] [[CHR 0xC2, CHR 0xA0]] ''MB''"
    by (simp add: sizePattern_def isDigit_def whiteSpace_def toUpperCase_def toUpper_def
        sizes_def)
  have v': "sizeValue ''5'' [] ''MB'' = 5242880"
    by (simp add: sizeValue_def unitExp_def sizes_def toUpperCase_def toUpper_def decimal_def
        digitVal_def)
  have t': "sizeText ''5'' [] [[CHR 0xC2, CHR 0xA0]] ''MB'' = ''5'' @ [CHR 0xC2, CHR 0xA0] @ ''MB''"
    by (simp add: sizeText_def)
  have n: "\<nexists>ip fr ws u. sizePattern ip fr ws u \<and> ''5 megabytes'' = sizeText ip fr ws u"
    using matchSize_pattern matchSize_megabytes by fastforce
  from size_codec [of "''1''" "''5''" "['' '']" "''kb''" "''5 megabytes''" exactLog] p v t n
  have a: "parseSize ''1.5 kb'' = 1536" "parseSize ''5 megabytes'' = 0"
    "formatSize exactLog 5242880 = ''5 MB''"
    by simp_all
  from size_codec [of "''5''" "[]" "[[CHR 0xC2, CHR 0xA0]]" "''MB''"] p' v' t'
  have b: "parseSize (''5'' @ [CHR 0xC2, CHR 0xA0] @ ''MB'') = 5242880"
    by simp
  from p p' n a b show ?thesis by blast
qed




section \<open>Paths\<close>

lemma splitOn_nonempty: "splitOn sep s \<noteq> []"
  by (induction s) (auto split: list.splits)

lemma splitOn_no_sep: "sep \<notin> set s \<Longrightarrow> splitOn sep s = [s]"
  by (induction s) auto

lemma splitOn_last_part:
  "sep \<notin> set ext \<Longrightarrow> splitOn sep (base @ sep # ext) = splitOn sep base @ [ext]"
proof (induction base)
  case Nil
  then show ?case by (simp add: splitOn_no_sep)
next
  case (Cons c cs)
  then show ?case
    using splitOn_nonempty [of sep cs] by (cases "splitOn sep cs") auto
qed

lemma joinWith_head: "joinWith sep ((c # p) # ps) = c # joinWith sep (p # ps)"
  by (cases ps) simp_all

lemma joinWith_splitOn: "joinWith [sep] (splitOn sep s) = s"
proof (induction s)
  case Nil
  then show ?case by simp
next
  case (Cons c cs)
  obtain p ps where ps: "splitOn sep cs = p # ps"
    using splitOn_nonempty [of sep cs] by (cases "splitOn sep cs") auto
  with Cons show ?case by (auto simp: joinWith_head)
qed

lemma joinWith_snoc:
  "parts \<noteq> [] \<Longrightarrow> joinWith sep (parts @ [e]) = joinWith sep parts @ sep @ e"
  by (induction sep parts rule: joinWith.induct) auto

lemma last_splitOn_no_sep: "sep \<notin> set (last (splitOn sep s))"
proof (induction s)
  case Nil
  then show ?case by simp
next
  case (Cons c cs)
  then show ?case
    using splitOn_nonempty [of sep cs] by (cases "splitOn sep cs") (auto split: if_splits)
qed

lemma splitOn_append:
  "splitOn c (u @ v)
     = butlast (splitOn c u) @ [last (splitOn c u) @ hd (splitOn c v)] @ tl (splitOn c v)"
proof (induction u)
  case Nil
  then show ?case using splitOn_nonempty [of c v] by simp
next
  case (Cons a u)
  obtain p ps where u: "splitOn c u = p # ps"
    using splitOn_nonempty [of c u] by (cases "splitOn c u") auto
  show ?case
  proof (cases "a = c")
    case True
    then show ?thesis using Cons u by simp
  next
    case False
    then show ?thesis using Cons u by (cases ps) simp_all
  qed
qed

lemma splitOn_subset: "s \<in> set (splitOn c u) \<Longrightarrow> set s \<subseteq> set u"
proof (induction u arbitrary: s)
  case Nil
  then show ?case by simp
next
  case (Cons a u)
  obtain p ps where u: "splitOn c u = p # ps"
    using splitOn_nonempty [of c u] by (cases "splitOn c u") auto
  from Cons.IH [of p] Cons.IH u have "set p \<subseteq> set u" "\<forall>q\<in>set ps. set q \<subseteq> set u"
    by auto
  with Cons.prems u show ?case by (auto split: if_splits)
qed

lemma last_splitOn_snoc: "a \<noteq> c \<Longrightarrow> last (splitOn c (u @ [a])) = last (splitOn c u) @ [a]"
  using splitOn_append [of c u "[a]"] by simp

lemma joinWith_Cons: "ys \<noteq> [] \<Longrightarrow> joinWith sep (x # ys) = x @ sep @ joinWith sep ys"
  by (cases ys) simp_all

lemma joinWith_middle:
  "joinWith sep (xs @ s # ys)
     = (if xs = [] then [] else joinWith sep xs @ sep) @ s
         @ (if ys = [] then [] else sep @ joinWith sep ys)"
proof (induction xs)
  case Nil
  show ?case by (cases ys) simp_all
next
  case (Cons x xs)
  have "joinWith sep (x # xs @ s # ys) = x @ sep @ joinWith sep (xs @ s # ys)"
    by (rule joinWith_Cons) simp
  then show ?case using Cons by (cases xs) simp_all
qed

lemma normalizeString_append:
  "normalizeString a res (xs @ ys) = normalizeString a (normalizeString a res xs) ys"
  by (induction xs arbitrary: res) auto

lemma normalizeString_plain:
  "\<forall>s\<in>set ys. CHR ''.'' \<notin> set s \<Longrightarrow>
   normalizeString a res ys = res @ filter (\<lambda>s. s \<noteq> []) ys"
  by (induction ys arbitrary: res) auto

text \<open>
  A path with a segment that holds an underscore, followed by no point but one: what is
  written after the underscore, up to the point, stands as it is in the normalised path,
  between a head and a tail that do not depend on it.
\<close>

lemma normalize_spliced:
  assumes ext: "CHR ''.'' \<notin> set ext"
  shows "\<exists>P Q. \<forall>t. CHR ''/'' \<notin> set t \<longrightarrow> normalize (x @ ''_'' @ t @ ''.'' @ ext) = P @ t @ Q"
proof -
  let ?c = "CHR ''/''"
  define X where "X = x @ ''_''"
  define Y where "Y = ''.'' @ ext"
  define A where "A = butlast (splitOn ?c X)"
  define lx where "lx = last (splitOn ?c X)"
  define hy where "hy = hd (splitOn ?c Y)"
  define E where "E = tl (splitOn ?c Y)"
  define abs where "abs = (hd X = ?c)"
  define R where "R = normalizeString (\<not> abs) [] A"
  define E' where "E' = filter (\<lambda>s. s \<noteq> []) E"
  define P where "P = (if abs then ''/'' else []) @ (if R = [] then [] else joinWith ''/'' R @ ''/'')
      @ lx"
  define Q where "Q = hy @ (if E' = [] then [] else ''/'' @ joinWith ''/'' E')
      @ (if last Y = ?c then ''/'' else [])"
  have lx: "CHR ''_'' \<in> set lx"
    using last_splitOn_snoc [of "CHR ''_''" ?c x] by (simp add: lx_def X_def)
  obtain p ps where e: "splitOn ?c ext = p # ps"
    using splitOn_nonempty [of ?c ext] by (cases "splitOn ?c ext") auto
  have Y: "splitOn ?c Y = (CHR ''.'' # p) # ps"
    by (simp add: Y_def e)
  have "\<forall>s\<in>set ps. set s \<subseteq> set ext"
    using splitOn_subset [of _ ?c ext] e by auto
  with ext have E: "\<forall>s\<in>set E. CHR ''.'' \<notin> set s"
    by (auto simp: E_def Y)
  have "normalize (x @ ''_'' @ t @ ''.'' @ ext) = P @ t @ Q" if t: "?c \<notin> set t" for t
  proof -
    let ?S = "lx @ t @ hy"
    have path: "x @ ''_'' @ t @ ''.'' @ ext = X @ t @ Y"
      by (simp add: X_def Y_def)
    have "splitOn ?c (t @ Y) = [t @ hy] @ E"
      using splitOn_append [of ?c t Y] splitOn_no_sep [OF t] by (simp add: hy_def E_def)
    then have segs: "splitOn ?c (X @ t @ Y) = A @ [?S] @ E"
      using splitOn_append [of ?c X "t @ Y"] by (simp add: A_def lx_def)
    from lx have "set ?S \<noteq> set []" "set ?S \<noteq> set ''.''" "set ?S \<noteq> set ''..''"
      by auto
    then have S: "?S \<noteq> []" "?S \<noteq> ''.''" "?S \<noteq> ''..''"
      by metis+
    have "normalizeString (\<not> abs) [] (A @ [?S] @ E)
        = normalizeString (\<not> abs) (normalizeString (\<not> abs) R [?S]) E"
      by (simp only: normalizeString_append R_def)
    also have "normalizeString (\<not> abs) R [?S] = R @ [?S]"
      using S by simp
    also have "normalizeString (\<not> abs) (R @ [?S]) E = (R @ [?S]) @ E'"
      unfolding E'_def by (rule normalizeString_plain [OF E])
    finally have stack: "normalizeString (\<not> abs) [] (splitOn ?c (X @ t @ Y)) = R @ ?S # E'"
      by (simp add: segs)
    have joined: "joinWith ''/'' (R @ ?S # E')
        = (if R = [] then [] else joinWith ''/'' R @ ''/'') @ ?S
            @ (if E' = [] then [] else ''/'' @ joinWith ''/'' E')"
      by (rule joinWith_middle)
    from lx have "lx \<noteq> []" by auto
    then have ne: "joinWith ''/'' (R @ ?S # E') \<noteq> []"
      unfolding joined by simp
    have X: "X \<noteq> []" by (simp add: X_def)
    then have hd: "hd (X @ t @ Y) = hd X" by (rule hd_append2)
    have last: "last (X @ t @ Y) = last Y" by (simp add: Y_def)
    define pth where "pth = X @ t @ Y"
    from X have pth: "pth \<noteq> []" by (simp add: pth_def)
    have st: "joinWith ''/'' (normalizeString (\<not> (hd pth = ?c)) [] (splitOn ?c pth))
        = joinWith ''/'' (R @ ?S # E')"
      using stack by (simp add: pth_def hd abs_def)
    have "normalize pth
        = (if abs then ''/'' else []) @ joinWith ''/'' (R @ ?S # E')
            @ (if last Y = ?c then ''/'' else [])"
      unfolding normalize_def Let_def st
      using pth ne hd last by (simp add: pth_def [symmetric] abs_def)
    then show ?thesis
      unfolding path joined pth_def by (simp add: P_def Q_def)
  qed
  then show ?thesis by blast
qed

text \<open>
  An entry that is a plain name (not empty, without a slash, neither \<open>.\<close> nor \<open>..\<close>) is
  the last segment of the path, after the normalised directory.
\<close>

lemma join_plain:
  assumes s: "CHR ''/'' \<notin> set s" "s \<noteq> []" "s \<noteq> ''.''" "s \<noteq> ''..''" and d: "d \<noteq> []"
  shows "join d s
    = (if hd d = CHR ''/'' then ''/'' else [])
        @ (if normalizeString (hd d \<noteq> CHR ''/'') [] (splitOn (CHR ''/'') d) = [] then []
           else joinWith ''/'' (normalizeString (hd d \<noteq> CHR ''/'') [] (splitOn (CHR ''/'') d))
                  @ ''/'')
        @ s"
proof -
  let ?c = "CHR ''/''"
  let ?R = "normalizeString (hd d \<noteq> ?c) [] (splitOn ?c d)"
  define pth where "pth = d @ ''/'' @ s"
  have pth: "pth \<noteq> []" "hd pth = hd d" "last pth = last s"
    using d s(2) by (simp_all add: pth_def)
  from s(1,2) have ls: "last s \<noteq> ?c" by (metis last_in_set)
  have "splitOn ?c pth = splitOn ?c d @ [s]"
    using splitOn_last_part [OF s(1), of d] by (simp add: pth_def)
  then have "normalizeString (\<not> (hd pth = ?c)) [] (splitOn ?c pth)
      = normalizeString (hd d \<noteq> ?c) ?R [s]"
    by (simp only: normalizeString_append pth(2))
  also have "\<dots> = ?R @ [s]" using s(2,3,4) by simp
  finally have st: "joinWith ''/'' (normalizeString (\<not> (hd pth = ?c)) [] (splitOn ?c pth))
      = (if ?R = [] then [] else joinWith ''/'' ?R @ ''/'') @ s"
    using joinWith_middle [of "''/''" ?R s "[]"] by simp
  have "normalize pth = (if hd d = ?c then ''/'' else [])
      @ ((if ?R = [] then [] else joinWith ''/'' ?R @ ''/'') @ s)"
    unfolding normalize_def Let_def st using pth ls s(2) by simp
  moreover have "join d s = normalize pth"
    using d s(2) by (simp add: join_def pth_def)
  ultimately show ?thesis by simp
qed

text \<open>The candidates of the collision loop stand at paths that differ with the counter.\<close>

lemma numbered_form:
  "numbered f n
     = joinWith ''.'' (butlast (splitOn (CHR ''.'') f)) @ ''_'' @ toString n @ ''.''
         @ last (splitOn (CHR ''.'') f)"
  by (simp add: numbered_def pop_def splitOn_nonempty Let_def)

lemma toString_no_slash: "CHR ''/'' \<notin> set (toString n)"
  using toString_digits [of n] by (auto simp: list_all_iff isDigit_def)

lemma join_numbered:
  "\<exists>P Q. \<forall>n. join d (numbered f n) = P @ toString n @ Q"
proof -
  let ?base = "joinWith ''.'' (butlast (splitOn (CHR ''.'') f))"
  let ?ext = "last (splitOn (CHR ''.'') f)"
  let ?x = "if d = [] then ?base else d @ ''/'' @ ?base"
  have "CHR ''.'' \<notin> set ?ext" by (rule last_splitOn_no_sep)
  from normalize_spliced [OF this, of ?x] obtain P Q
    where PQ: "\<And>t. CHR ''/'' \<notin> set t \<Longrightarrow> normalize (?x @ ''_'' @ t @ ''.'' @ ?ext) = P @ t @ Q"
    by blast
  have "join d (numbered f n) = P @ toString n @ Q" for n
  proof -
    have "join d (numbered f n) = normalize (?x @ ''_'' @ toString n @ ''.'' @ ?ext)"
      by (simp add: join_def numbered_form)
    then show ?thesis using PQ [OF toString_no_slash] by simp
  qed
  then show ?thesis by blast
qed

lemma join_numbered_inj: "inj (\<lambda>n. join d (numbered f n))"
proof (rule injI)
  fix m n
  from join_numbered [of d f] obtain P Q
    where PQ: "\<And>n. join d (numbered f n) = P @ toString n @ Q"
    by blast
  assume "join d (numbered f m) = join d (numbered f n)"
  then have "toString m = toString n" by (simp add: PQ)
  then show "m = n" by (rule toString_inj)
qed

termination uniqueName
proof (relation "measure (\<lambda>(env, fs, d, f, u, c).
    card {n. c \<le> n \<and> existsSync env fs (join d (numbered f n))}
      + (if existsSync env fs (join d u) then 1 else 0))", goal_cases)
  case 1
  show ?case by simp
next
  case (2 env fs d f u c)
  let ?P = "\<lambda>n. existsSync env fs (join d (numbered f n))"
  have "{n. ?P n} = (\<lambda>n. join d (numbered f n)) -` (fset (fmdom fs) \<union> fset (directories env))"
    by (auto simp: existsSync_def)
  then have "finite {n. ?P n}"
    using finite_vimageI [OF _ join_numbered_inj, of "fset (fmdom fs) \<union> fset (directories env)"]
    by simp
  then have fin: "finite {n. c + 1 \<le> n \<and> ?P n}"
    by (rule rev_finite_subset) auto
  have split: "{n. c \<le> n \<and> ?P n}
      = (if ?P c then insert c {n. c + 1 \<le> n \<and> ?P n} else {n. c + 1 \<le> n \<and> ?P n})"
    by (auto simp: Suc_le_eq order_le_less)
  have "card {n. c \<le> n \<and> ?P n} = card {n. c + 1 \<le> n \<and> ?P n} + (if ?P c then 1 else 0)"
    unfolding split using fin by simp
  with 2 show ?case by simp
qed

declare uniqueName.simps [simp del]


section \<open>The collision loop and the promotion of the temp file\<close>

lemma uniqueName_free: "\<not> existsSync env fs (join d (uniqueName env fs d f u c))"
  by (induction env fs d f u c rule: uniqueName.induct) (subst uniqueName.simps, simp)

lemma uniqueName_idle: "\<not> existsSync env fs (join d u) \<Longrightarrow> uniqueName env fs d f u c = u"
  by (subst uniqueName.simps) simp

lemma uniqueName_numbered_from:
  "\<exists>n\<ge>c. uniqueName env fs d f (numbered f c) (c + 1) = numbered f n
     \<and> (\<forall>m. c \<le> m \<and> m < n \<longrightarrow> existsSync env fs (join d (numbered f m)))"
proof (induction env fs d f "numbered f c" "c + 1" arbitrary: c rule: uniqueName.induct)
  case (1 env fs d f c)
  show ?case
  proof (cases "existsSync env fs (join d (numbered f c))")
    case False
    then have "uniqueName env fs d f (numbered f c) (c + 1) = numbered f c"
      by (rule uniqueName_idle)
    then show ?thesis by (intro exI [of _ c]) auto
  next
    case True
    from 1 [OF True refl refl] obtain n where n: "c + 1 \<le> n"
      "uniqueName env fs d f (numbered f (c + 1)) (c + 1 + 1) = numbered f n"
      "\<forall>m. c + 1 \<le> m \<and> m < n \<longrightarrow> existsSync env fs (join d (numbered f m))"
      by blast
    have "uniqueName env fs d f (numbered f c) (c + 1) = numbered f n"
      using True n(2) by (subst uniqueName.simps) simp
    moreover have "\<forall>m. c \<le> m \<and> m < n \<longrightarrow> existsSync env fs (join d (numbered f m))"
      using n(3) True by (metis Suc_eq_plus1 Suc_leI le_neq_implies_less)
    ultimately show ?thesis using n(1) by (intro exI [of _ n]) auto
  qed
qed

lemma uniqueName_taken:
  assumes "existsSync env fs (join d f)"
  shows "\<exists>n\<ge>1. uniqueName env fs d f f 1 = numbered f n
     \<and> (\<forall>m. 1 \<le> m \<and> m < n \<longrightarrow> existsSync env fs (join d (numbered f m)))"
proof -
  have "uniqueName env fs d f f 1 = uniqueName env fs d f (numbered f 1) (1 + 1)"
    using assms by (subst uniqueName.simps) simp
  then show ?thesis using uniqueName_numbered_from [of 1 env fs d f] by simp
qed

lemma promote_result:
  assumes t: "fmlookup fs1 tp = Some c"
  shows "case promote env fs1 chunk ci fileName sp d tp of (r, fs') \<Rightarrow>
     (\<forall>p. p \<noteq> tp \<and> p \<noteq> join d (uniqueName env fs1 d fileName fileName 1)
          \<longrightarrow> fmlookup fs' p = fmlookup fs1 p)
     \<and> ((\<exists>e. r = chunkFailure ci e)
        \<or> (r = completed env chunk sp (uniqueName env fs1 d fileName fileName 1) fileName (length c)
           \<and> fmlookup fs' (join d (uniqueName env fs1 d fileName fileName 1)) = Some c))"
proof -
  have free: "fmlookup fs1 (join d (uniqueName env fs1 d fileName fileName 1)) = None"
    using uniqueName_free [of env fs1 d fileName fileName 1]
    by (auto simp: existsSync_def)
  with t have ne: "join d (uniqueName env fs1 d fileName fileName 1) \<noteq> tp" by auto
  show ?thesis
    using t free ne
    by (auto simp: promote_def copyAndDelete_def rename_def stat_def readFile_def writeFile_def
        unlink_def Let_def split: option.splits sum.splits)
qed

section \<open>\<open>handleChunkedUpload\<close>: validation, write, frame\<close>

lemma handle_invalid:
  assumes "lt ci (Finite 0) \<or> ge ci tc \<or> le tc (Finite 0) \<or> fileName = [] \<or> trim fileName = []"
  shows "\<exists>e. handleChunkedUpload env fs chunk up ci tc fileName = (ErrorResponse 400 e, fs)"
  using assms by (auto simp: handleChunkedUpload_def)

lemma handle_valid:
  assumes "\<not> lt ci (Finite 0)" "\<not> ge ci tc" "\<not> le tc (Finite 0)" "fileName \<noteq> []"
    "trim fileName \<noteq> []"
  shows "handleChunkedUpload env fs chunk up ci tc fileName =
    (case fails env MkdirUpload of
       Some e \<Rightarrow> (chunkFailure ci e, fs)
     | None \<Rightarrow>
        (case fails env (if seq ci (Finite 0) then WriteTemp else AppendTemp) of
           Some e \<Rightarrow> (chunkFailure ci e, fs)
         | None \<Rightarrow>
            if seq ci (plus tc (- 1))
            then promote env (afterChunk fs (tempPath env up fileName) ci (fbytes chunk)) chunk ci
                   fileName (sanitize up) (uploadDir env up) (tempPath env up fileName)
            else (ChunkResponse True
                    (''Chunk '' @ numberString (plus ci 1) @ ''/'' @ numberString tc
                       @ '' uploaded successfully'') ci tc False,
                  afterChunk fs (tempPath env up fileName) ci (fbytes chunk))))"
  using assms
  by (simp add: handleChunkedUpload_def writeFile_def appendFile_def afterChunk_def tempPath_def
      uploadDir_def Let_def split: option.splits)

lemma afterChunk_temp:
  "\<exists>c. fmlookup (afterChunk fs tp ci b) tp = Some c"
  by (simp add: afterChunk_def)

lemma afterChunk_other: "p \<noteq> tp \<Longrightarrow> fmlookup (afterChunk fs tp ci b) p = fmlookup fs p"
  by (simp add: afterChunk_def)

text \<open>No request touches a file other than its temp file and the file it promotes.\<close>

lemma handle_frame:
  assumes h: "handleChunkedUpload env fs chunk up ci tc fileName = (r, fs')"
    and p: "fmlookup fs p = Some c" "p \<noteq> tempPath env up fileName"
  shows "fmlookup fs' p = Some c"
proof (cases "lt ci (Finite 0) \<or> ge ci tc \<or> le tc (Finite 0) \<or> fileName = [] \<or> trim fileName = []")
  case True
  from handle_invalid [OF True, of env fs chunk up] h have "fs' = fs" by auto
  with p show ?thesis by simp
next
  case False
  let ?tp = "tempPath env up fileName"
  let ?fs1 = "afterChunk fs ?tp ci (fbytes chunk)"
  let ?u = "uniqueName env ?fs1 (uploadDir env up) fileName fileName 1"
  obtain c1 where c1: "fmlookup ?fs1 ?tp = Some c1" using afterChunk_temp by blast
  have p1: "fmlookup ?fs1 p = Some c" using p by (simp add: afterChunk_other)
  then have "existsSync env ?fs1 p" by (simp add: existsSync_def fmdomI)
  then have pu: "p \<noteq> join (uploadDir env up) ?u" using uniqueName_free by metis
  note pr = promote_result [OF c1, where env = env and chunk = chunk and ci = ci
      and fileName = fileName and sp = "sanitize up" and d = "uploadDir env up"]
  from False have v: "\<not> lt ci (Finite 0)" "\<not> ge ci tc" "\<not> le tc (Finite 0)" "fileName \<noteq> []"
    "trim fileName \<noteq> []" by auto
  show ?thesis
    using h p p1 pu pr
    unfolding handle_valid [OF v]
    by (auto split: option.splits if_splits)
qed

section \<open>Responses and the temp file of a chunked request\<close>


lemma firstAlnums_take: "firstAlnums n s = take n (filter isAlnum s)"
proof (induction s arbitrary: n)
  case Nil
  then show ?case by (cases n) simp_all
next
  case (Cons c s)
  then show ?case by (cases n) simp_all
qed

lemma fileHash_alnum: "list_all isAlnum (fileHash fileName)"
  unfolding fileHash_def list_all_iff using in_set_takeD by fastforce

lemma fileHash_length: "length (fileHash fileName) \<le> 16"
  by (simp add: fileHash_def)

lemma hash_a_txt: "fileHash ''a.txt'' = ''YS50eHQ''"
  by code_simp

lemma firstAlnums_a_txt: "firstAlnums 16 (base64 ''a.txt'') = ''YS50eHQ''"
  by code_simp

lemma trim_a_txt: "trim ''a.txt'' = ''a.txt''"
  by code_simp

lemma sanitize_Documents: "sanitize ''Documents'' = ''Documents''"
  by code_simp

lemma temp_a_txt_1000: "tempFileName ''a.txt'' 1000 = ''temp_YS50eHQ_1000''"
  by (simp add: tempFileName_def hash_a_txt toString.simps digitChar_simps)

lemma temp_a_txt_1001: "tempFileName ''a.txt'' 1001 = ''temp_YS50eHQ_1001''"
  by (simp add: tempFileName_def hash_a_txt toString.simps digitChar_simps)

lemma length_5: "Suc (Suc (Suc (Suc (Suc 0)))) = 5"
  by simp

lemma formatSize_5: "formatSize exactLog 5 = ''5 B''"
  using formatSize_eq [of exactLog 5 0] exactLog_index [of 0 5]
  by (simp add: hundredths_def sizesAt_def sizes_def toString.simps digitChar_simps)

text \<open>The upload directory of \<open>Documents\<close> and the plain names in it.\<close>

lemma join_storage: "join ''/mnt/nas/storage'' ''Documents'' = ''/mnt/nas/storage/Documents''"
  by code_simp

lemma segments_Documents:
  "normalizeString False [] (splitOn (CHR ''/'') ''/mnt/nas/storage/Documents'')
     = [''mnt'', ''nas'', ''storage'', ''Documents'']"
  by code_simp

lemma join_Documents:
  assumes "CHR ''/'' \<notin> set s" "s \<noteq> []" "s \<noteq> ''.''" "s \<noteq> ''..''"
  shows "join ''/mnt/nas/storage/Documents'' s = ''/mnt/nas/storage/Documents/'' @ s"
  using join_plain [OF assms, of "''/mnt/nas/storage/Documents''"]
  by (simp add: segments_Documents)

lemmas request_eval =
  handleChunkedUpload_def promote_def copyAndDelete_def completed_def chunkedRecord_def
  calm_def blob_def join_storage join_Documents writeFile_def appendFile_def rename_def stat_def
  existsSync_def trim_a_txt sanitize_Documents temp_a_txt_1000 temp_a_txt_1001 toString.simps
  digitChar_simps uniqueName.simps Let_def

lemma first_chunk_1000:
  "handleChunkedUpload (calm 1000) fmempty (blob ''hello '') ''Documents'' (Finite 0) (Finite 2)
     ''a.txt''
   = (ChunkResponse True ''Chunk 1/2 uploaded successfully'' (Finite 0) (Finite 2) False,
      fmupd ''/mnt/nas/storage/Documents/temp_YS50eHQ_1000'' ''hello '' fmempty)"
  by (simp add: request_eval)

lemma second_chunk_1001:
  "handleChunkedUpload (calm 1001)
     (fmupd ''/mnt/nas/storage/Documents/temp_YS50eHQ_1000'' ''hello '' fmempty)
     (blob ''world'') ''Documents'' (Finite 1) (Finite 2) ''a.txt''
   = (CompletedResponse True ''Chunked upload completed successfully''
        [\<lparr> recId = ''chunked_1001_k3x9qz'', recName = ''a.txt'', originalName = ''a.txt'',
            recSize = 5, recType = [], recPath = ''Documents/a.txt'',
            uploadedAt = ''2024-01-01T00:00:00.000Z'', sizeFormatted = ''5 B'' \<rparr>]
        ''Documents'' True,
      fmupd ''/mnt/nas/storage/Documents/a.txt'' ''world''
        (fmdrop ''/mnt/nas/storage/Documents/temp_YS50eHQ_1001''
           (fmupd ''/mnt/nas/storage/Documents/temp_YS50eHQ_1001'' ''world''
              (fmupd ''/mnt/nas/storage/Documents/temp_YS50eHQ_1000'' ''hello '' fmempty))))"
  by (simp add: request_eval length_5 formatSize_5)

lemma now_calm: "now (calm t) k = t"
  by (simp add: calm_def)

lemma uploadDir_calm: "uploadDir (calm t) ''Documents'' = ''/mnt/nas/storage/Documents''"
  by (simp add: uploadDir_def calm_def join_storage sanitize_Documents)

lemma parseInt_abc: "parseInt ''abc'' = NaN"
  by code_simp

lemma parseInt_2: "parseInt ''2'' = Finite 2"
  by code_simp



text \<open>
  Claim C7. The temp file name of a chunked request is \<open>temp_\<close>, the first 16
  alphanumeric characters of the base64 encoding of the file name (all of them when
  there are fewer), an underscore and the reading of the clock taken while the request
  is handled. It is the path under which the chunk is written: a request answered with
  a chunk receipt leaves the storage as the write to that path made it, and a completed
  request promotes the content found there.
\<close>

theorem temp_file_name:
  "tempFileName fileName t = ''temp_'' @ firstAlnums 16 (base64 fileName) @ ''_'' @ toString t
   \<and> tempPath env up fileName
       = join (uploadDir env up)
           (''temp_'' @ firstAlnums 16 (base64 fileName) @ ''_'' @ toString (now env 0))
   \<and> (handleChunkedUpload env fs chunk up ci tc fileName = (ChunkResponse ok msg i n done, fs')
        \<longrightarrow> fs' = afterChunk fs (tempPath env up fileName) ci (fbytes chunk))
   \<and> (handleChunkedUpload env fs chunk up ci tc fileName
          = (CompletedResponse ok msg files p done, fs')
        \<longrightarrow> (\<exists>rec c. files = [rec]
               \<and> fmlookup (afterChunk fs (tempPath env up fileName) ci (fbytes chunk))
                   (tempPath env up fileName) = Some c
               \<and> fmlookup fs' (join (uploadDir env up) (recName rec)) = Some c))"
proof -
  let ?tp = "tempPath env up fileName"
  let ?fs1 = "afterChunk fs ?tp ci (fbytes chunk)"
  have n: "tempFileName fileName t
      = ''temp_'' @ firstAlnums 16 (base64 fileName) @ ''_'' @ toString t" for t
    by (simp add: tempFileName_def fileHash_def firstAlnums_take)
  have tp: "?tp = join (uploadDir env up)
           (''temp_'' @ firstAlnums 16 (base64 fileName) @ ''_'' @ toString (now env 0))"
    by (simp only: tempPath_def n)
  obtain c1 where c1: "fmlookup ?fs1 ?tp = Some c1" using afterChunk_temp by blast
  note pr = promote_result [OF c1, where env = env and chunk = chunk and ci = ci
      and fileName = fileName and sp = "sanitize up" and d = "uploadDir env up"]
  have a: "fs' = ?fs1"
    if h: "handleChunkedUpload env fs chunk up ci tc fileName
        = (ChunkResponse ok msg i n done, fs')"
  proof -
    have v: "\<not> lt ci (Finite 0)" "\<not> ge ci tc" "\<not> le tc (Finite 0)" "fileName \<noteq> []"
      "trim fileName \<noteq> []"
      using handle_invalid [of ci tc fileName env fs chunk up] h by auto
    show ?thesis
      using h pr unfolding handle_valid [OF v]
      by (auto simp: chunkFailure_def completed_def split: option.splits if_splits)
  qed
  have b: "\<exists>rec c. files = [rec] \<and> fmlookup ?fs1 ?tp = Some c
               \<and> fmlookup fs' (join (uploadDir env up) (recName rec)) = Some c"
    if h: "handleChunkedUpload env fs chunk up ci tc fileName
        = (CompletedResponse ok msg files p done, fs')"
  proof -
    have v: "\<not> lt ci (Finite 0)" "\<not> ge ci tc" "\<not> le tc (Finite 0)" "fileName \<noteq> []"
      "trim fileName \<noteq> []"
      using handle_invalid [of ci tc fileName env fs chunk up] h by auto
    show ?thesis
      using h pr c1 unfolding handle_valid [OF v]
      by (auto simp: chunkFailure_def completed_def chunkedRecord_def
          split: option.splits if_splits)
  qed
  from n [of t] tp a b show ?thesis by blast
qed

theorem temp_file_name_witness:
  "tempFileName ''a.txt'' 1000 = ''temp_YS50eHQ_1000''
   \<and> tempPath (calm 1000) ''Documents'' ''a.txt''
       = ''/mnt/nas/storage/Documents/temp_YS50eHQ_1000''
   \<and> snd (handleChunkedUpload (calm 1000) fmempty (blob ''hello '') ''Documents'' (Finite 0)
            (Finite 2) ''a.txt'')
       = fmupd ''/mnt/nas/storage/Documents/temp_YS50eHQ_1000'' ''hello '' fmempty"
  using temp_file_name [of "''a.txt''" 1000 "calm 1000" "''Documents''" fmempty "blob ''hello ''"
      "Finite 0" "Finite 2" True "''Chunk 1/2 uploaded successfully''" "Finite 0" "Finite 2"
      False "fmupd ''/mnt/nas/storage/Documents/temp_YS50eHQ_1000'' ''hello '' fmempty"]
  by (simp add: first_chunk_1000 temp_a_txt_1000 tempPath_def uploadDir_calm now_calm
      join_Documents firstAlnums_a_txt toString.simps digitChar_simps)

section \<open>Requests that the validation lets through, and chunks that are handled apart\<close>

text \<open>
  On whole numbers the validation is as the spec has it: a chunk index outside
  \<open>0 \<le> chunkIndex < totalChunks\<close>, a chunk count that is not positive and a file name
  that is empty or white space are answered with status 400, and the storage is as it
  was.
\<close>

lemma handle_rejects_integers:
  assumes "i < 0 \<or> t \<le> i \<or> t \<le> 0
      \<or> (\<exists>ws. list_all (\<lambda>w. w \<in> set whiteSpace) ws \<and> fileName = concat ws)"
  shows "\<exists>e. handleChunkedUpload env fs chunk up (Finite i) (Finite t) fileName
           = (ErrorResponse 400 e, fs)"
proof (rule handle_invalid)
  have "fileName = [] \<or> trim fileName = []"
    if "\<exists>ws. list_all (\<lambda>w. w \<in> set whiteSpace) ws \<and> fileName = concat ws"
    using that trim_whiteSpace by blast
  with assms show "lt (Finite i) (Finite 0) \<or> ge (Finite i) (Finite t) \<or> le (Finite t) (Finite 0)
      \<or> fileName = [] \<or> trim fileName = []"
    by auto
qed

text \<open>
  Claim C6 (the code departs from it). A chunk index that is not a number does not
  satisfy \<open>0 \<le> chunkIndex < totalChunks\<close>, so the request is to be rejected with a
  client error and no file is to change. The code tests \<open>chunkIndex < 0 ||
  chunkIndex >= totalChunks\<close>, which is false for \<open>NaN\<close>: a request whose \<open>chunkIndex\<close>
  field reads \<open>abc\<close> is answered with success, and its chunk is appended to a new temp
  file.
\<close>

theorem nan_chunk_index_accepted:
  "POST (calm 1000) fmempty
     \<lparr> fdFiles = [blob ''hello ''], fdPath = Some ''Documents'', fdChunkIndex = Some ''abc'',
       fdTotalChunks = Some ''2'', fdFileName = Some ''a.txt'' \<rparr>
   = (ChunkResponse True ''Chunk NaN/2 uploaded successfully'' NaN (Finite 2) False,
      fmupd ''/mnt/nas/storage/Documents/temp_YS50eHQ_1000'' ''hello '' fmempty)"
  by (simp add: POST_def parseInt_abc parseInt_2 request_eval)

text \<open>
  Claim C1 (the code departs from it). The chunks of an upload are to accumulate in one
  temp file, so that the promoted file is as long as all the chunks together. The temp
  file name holds the reading of the clock of each request: when the two chunks of a
  file are handled one millisecond apart, the second chunk is appended to a temp file
  of its own, and that file alone is promoted. The file \<open>hello world\<close>, sent as \<open>hello \<close>
  and \<open>world\<close>, ends as the 5 bytes \<open>world\<close>; the first chunk stays behind in its temp
  file.
\<close>

theorem chunks_of_different_milliseconds_are_lost:
  "(case serve ''Documents'' ''a.txt''
           [(calm 1000, blob ''hello '', Finite 0, Finite 2),
            (calm 1001, blob ''world'', Finite 1, Finite 2)] fmempty of
      (rs, fs') \<Rightarrow>
        completedNames rs = [''a.txt'']
        \<and> fmlookup fs' ''/mnt/nas/storage/Documents/a.txt'' = Some ''world''
        \<and> fmlookup fs' ''/mnt/nas/storage/Documents/temp_YS50eHQ_1000'' = Some ''hello ''
        \<and> fmdom fs' = {|''/mnt/nas/storage/Documents/a.txt'',
                          ''/mnt/nas/storage/Documents/temp_YS50eHQ_1000''|})
   \<and> length ''world'' < length (''hello '' @ ''world'')"
  by (simp add: first_chunk_1000 second_chunk_1001)

text \<open>When both requests read the same millisecond, the chunks do accumulate.\<close>

lemma chunks_of_one_millisecond_accumulate:
  "(case serve ''Documents'' ''a.txt''
           [(calm 1000, blob ''hello '', Finite 0, Finite 2),
            (calm 1000, blob ''world'', Finite 1, Finite 2)] fmempty of
      (rs, fs') \<Rightarrow>
        completedNames rs = [''a.txt'']
        \<and> fmlookup fs' ''/mnt/nas/storage/Documents/a.txt'' = Some ''hello world''
        \<and> fmdom fs' = {|''/mnt/nas/storage/Documents/a.txt''|})"
  by (simp add: first_chunk_1000) (simp add: request_eval)

section \<open>Names of promoted files\<close>

text \<open>A name with an extension is numbered before the last point.\<close>

lemma numbered_extension:
  assumes "CHR ''.'' \<notin> set ext"
  shows "numbered (base @ ''.'' @ ext) n = base @ ''_'' @ toString n @ ''.'' @ ext"
  using splitOn_last_part [OF assms, of base] splitOn_nonempty [of "CHR ''.''" base]
    joinWith_splitOn [of "CHR ''.''" base]
  by (simp add: numbered_def pop_def Let_def)

lemma existsSync_afterChunk:
  "existsSync env (afterChunk fs tp ci b) q \<longleftrightarrow> q = tp \<or> existsSync env fs q"
  by (auto simp: existsSync_def afterChunk_def)

text \<open>What a completed request has done to the storage.\<close>

lemma handle_completed:
  assumes h: "handleChunkedUpload env fs chunk up ci tc fileName
      = (CompletedResponse ok msg files p done, fs')"
  shows "\<exists>rec c. files = [rec]
      \<and> recName rec = uniqueName env (afterChunk fs (tempPath env up fileName) ci (fbytes chunk))
                         (uploadDir env up) fileName fileName 1
      \<and> \<not> existsSync env fs (join (uploadDir env up) (recName rec))
      \<and> join (uploadDir env up) (recName rec) \<noteq> tempPath env up fileName
      \<and> fmlookup (afterChunk fs (tempPath env up fileName) ci (fbytes chunk))
            (tempPath env up fileName) = Some c
      \<and> fmlookup fs' (join (uploadDir env up) (recName rec)) = Some c"
proof -
  let ?tp = "tempPath env up fileName"
  let ?fs1 = "afterChunk fs ?tp ci (fbytes chunk)"
  let ?u = "uniqueName env ?fs1 (uploadDir env up) fileName fileName 1"
  have v: "\<not> lt ci (Finite 0)" "\<not> ge ci tc" "\<not> le tc (Finite 0)" "fileName \<noteq> []"
    "trim fileName \<noteq> []"
    using handle_invalid [of ci tc fileName env fs chunk up] h by auto
  obtain c1 where c1: "fmlookup ?fs1 ?tp = Some c1" using afterChunk_temp by blast
  note pr = promote_result [OF c1, where env = env and chunk = chunk and ci = ci
      and fileName = fileName and sp = "sanitize up" and d = "uploadDir env up"]
  have free: "\<not> existsSync env ?fs1 (join (uploadDir env up) ?u)"
    by (rule uniqueName_free)
  then have "\<not> existsSync env fs (join (uploadDir env up) ?u)" "join (uploadDir env up) ?u \<noteq> ?tp"
    by (simp_all add: existsSync_afterChunk)
  moreover have "files = [chunkedRecord env chunk (sanitize up) ?u fileName (length c1)]
      \<and> fmlookup fs' (join (uploadDir env up) ?u) = Some c1"
    using h pr unfolding handle_valid [OF v]
    by (auto simp: chunkFailure_def completed_def split: option.splits if_splits)
  ultimately show ?thesis
    using c1 by (auto simp: chunkedRecord_def)
qed

lemma handle_completed_name:
  assumes h: "handleChunkedUpload env fs chunk up ci tc fileName
      = (CompletedResponse ok msg files p done, fs')"
  shows "\<exists>rec. files = [rec] \<and>
     (if existsSync env (afterChunk fs (tempPath env up fileName) ci (fbytes chunk))
           (join (uploadDir env up) fileName)
      then \<exists>n\<ge>1. recName rec = numbered fileName n
             \<and> (\<forall>m. 1 \<le> m \<and> m < n \<longrightarrow>
                   existsSync env (afterChunk fs (tempPath env up fileName) ci (fbytes chunk))
                     (join (uploadDir env up) (numbered fileName m)))
      else recName rec = fileName)"
proof -
  from handle_completed [OF h] obtain rec where r: "files = [rec]"
    "recName rec = uniqueName env (afterChunk fs (tempPath env up fileName) ci (fbytes chunk))
                         (uploadDir env up) fileName fileName 1"
    by blast
  show ?thesis
    using r uniqueName_taken [of env "afterChunk fs (tempPath env up fileName) ci (fbytes chunk)"
        "uploadDir env up" fileName]
      uniqueName_idle [of env "afterChunk fs (tempPath env up fileName) ci (fbytes chunk)"
        "uploadDir env up" fileName fileName 1]
    by auto
qed

section \<open>Finalization and existing files\<close>

lemma hash_x_txt: "fileHash ''x.txt'' = ''eC50eHQ''"
  by code_simp

lemma trim_x_txt: "trim ''x.txt'' = ''x.txt''"
  by code_simp

lemma temp_x_txt: "tempFileName ''x.txt'' t = ''temp_eC50eHQ_'' @ toString t"
  by (simp add: tempFileName_def hash_x_txt)

lemma numbered_x_txt: "numbered ''x.txt'' n = ''x_'' @ toString n @ ''.txt''"
  using numbered_extension [of "''txt''" "''x''" n] by simp

lemma length_3: "Suc (Suc (Suc 0)) = 3"
  by simp

lemma formatSize_3: "formatSize exactLog 3 = ''3 B''"
  using formatSize_eq [of exactLog 3 0] exactLog_index [of 0 3]
  by (simp add: hundredths_def sizesAt_def sizes_def toString.simps digitChar_simps)

lemma uniqueName_step:
  "existsSync env fs (join d u) \<Longrightarrow>
   uniqueName env fs d f u c = uniqueName env fs d f (numbered f c) (c + 1)"
  by (subst uniqueName.simps) simp

lemma two: "Suc (Suc 0) = 2"
  by simp

lemmas upload_eval =
  handleChunkedUpload_def promote_def copyAndDelete_def completed_def chunkedRecord_def
  calm_def blob_def join_storage join_Documents writeFile_def appendFile_def rename_def stat_def
  existsSync_def sanitize_Documents toString.simps digitChar_simps uniqueName_idle
  uniqueName_step two Let_def

text \<open>
  With \<open>x.txt\<close> in place, an upload named \<open>x.txt\<close> becomes \<open>x_1.txt\<close>, the next one
  \<open>x_2.txt\<close>, and all three files are there afterwards.
\<close>

lemma upload_x_1000:
  "handleChunkedUpload (calm 1000)
     (fmupd ''/mnt/nas/storage/Documents/x.txt'' ''old'' fmempty)
     (blob ''new'') ''Documents'' (Finite 0) (Finite 1) ''x.txt''
   = (CompletedResponse True ''Chunked upload completed successfully''
        [\<lparr> recId = ''chunked_1000_k3x9qz'', recName = ''x_1.txt'', originalName = ''x.txt'',
            recSize = 3, recType = [], recPath = ''Documents/x_1.txt'',
            uploadedAt = ''2024-01-01T00:00:00.000Z'', sizeFormatted = ''3 B'' \<rparr>]
        ''Documents'' True,
      fmupd ''/mnt/nas/storage/Documents/x_1.txt'' ''new''
        (fmdrop ''/mnt/nas/storage/Documents/temp_eC50eHQ_1000''
           (fmupd ''/mnt/nas/storage/Documents/temp_eC50eHQ_1000'' ''new''
              (fmupd ''/mnt/nas/storage/Documents/x.txt'' ''old'' fmempty))))"
  by (simp add: upload_eval trim_x_txt temp_x_txt numbered_x_txt length_3 formatSize_3)

lemma serve_x_twice:
  "(case serve ''Documents'' ''x.txt''
          [(calm 1000, blob ''new'', Finite 0, Finite 1),
           (calm 2000, blob ''newer'', Finite 0, Finite 1)]
          (fmupd ''/mnt/nas/storage/Documents/x.txt'' ''old'' fmempty) of
      (rs, fs') \<Rightarrow>
        completedNames rs = [''x_1.txt'', ''x_2.txt'']
        \<and> fmlookup fs' ''/mnt/nas/storage/Documents/x.txt'' = Some ''old''
        \<and> fmlookup fs' ''/mnt/nas/storage/Documents/x_1.txt'' = Some ''new''
        \<and> fmlookup fs' ''/mnt/nas/storage/Documents/x_2.txt'' = Some ''newer'')"
  by (simp add: upload_x_1000) (simp add: upload_eval trim_x_txt temp_x_txt numbered_x_txt)

lemma hash_temp_name: "fileHash ''temp_dGVtcF9kR1Z0Y0Y5_1001'' = ''dGVtcF9kR1Z0Y0Y5''"
  by code_simp

lemma trim_temp_name: "trim ''temp_dGVtcF9kR1Z0Y0Y5_1001'' = ''temp_dGVtcF9kR1Z0Y0Y5_1001''"
  by code_simp

lemma temp_temp_name:
  "tempFileName ''temp_dGVtcF9kR1Z0Y0Y5_1001'' t = ''temp_dGVtcF9kR1Z0Y0Y5_'' @ toString t"
  by (simp add: tempFileName_def hash_temp_name)

lemma numbered_temp_name:
  "numbered ''temp_dGVtcF9kR1Z0Y0Y5_1001'' n
     = ''_'' @ toString n @ ''.temp_dGVtcF9kR1Z0Y0Y5_1001''"
  by (simp add: numbered_def pop_def splitOn_no_sep)

lemma first_upload_of_temp_name:
  "handleChunkedUpload (calm 1000) fmempty (blob ''first'') ''Documents'' (Finite 0) (Finite 1)
     ''temp_dGVtcF9kR1Z0Y0Y5_1001''
   = (CompletedResponse True ''Chunked upload completed successfully''
        [\<lparr> recId = ''chunked_1000_k3x9qz'', recName = ''temp_dGVtcF9kR1Z0Y0Y5_1001'',
            originalName = ''temp_dGVtcF9kR1Z0Y0Y5_1001'', recSize = 5, recType = [],
            recPath = ''Documents/temp_dGVtcF9kR1Z0Y0Y5_1001'',
            uploadedAt = ''2024-01-01T00:00:00.000Z'', sizeFormatted = ''5 B'' \<rparr>]
        ''Documents'' True,
      fmupd ''/mnt/nas/storage/Documents/temp_dGVtcF9kR1Z0Y0Y5_1001'' ''first''
        (fmdrop ''/mnt/nas/storage/Documents/temp_dGVtcF9kR1Z0Y0Y5_1000''
           (fmupd ''/mnt/nas/storage/Documents/temp_dGVtcF9kR1Z0Y0Y5_1000'' ''first''
              fmempty)))"
  by (simp add: upload_eval trim_temp_name temp_temp_name numbered_temp_name length_5
      formatSize_5)

text \<open>
  Claim C4 (the code departs from it). While a file stands at the candidate name the
  candidate is numbered, so that finalization never writes over an existing file, and
  \<open>N\<close> uploads of one name give \<open>N\<close> distinct files. But the chunk is written to the temp
  file before the loop looks at the names, in the directory of the upload, and the temp
  file name is made of the requested name and the clock: an upload whose name is the temp
  file name of its own request writes its chunk over the file of that name. The first of
  two uploads named \<open>temp_dGVtcF9kR1Z0Y0Y5_1001\<close> leaves a file of that name holding
  \<open>first\<close>; the second, handled at the millisecond 1001, writes \<open>second\<close> over it, finds
  the name taken by what it has just written and moves the file to
  \<open>_1.temp_dGVtcF9kR1Z0Y0Y5_1001\<close>. Both uploads are answered as completed, with two
  names, and one file is left: the content of the first upload is lost.
\<close>

theorem upload_named_as_its_temp_file_overwrites:
  "fmlookup (snd (handleChunkedUpload (calm 1000) fmempty (blob ''first'') ''Documents''
                    (Finite 0) (Finite 1) ''temp_dGVtcF9kR1Z0Y0Y5_1001''))
       ''/mnt/nas/storage/Documents/temp_dGVtcF9kR1Z0Y0Y5_1001'' = Some ''first''
   \<and> (case serve ''Documents'' ''temp_dGVtcF9kR1Z0Y0Y5_1001''
          [(calm 1000, blob ''first'', Finite 0, Finite 1),
           (calm 1001, blob ''second'', Finite 0, Finite 1)] fmempty of
      (rs, fs') \<Rightarrow>
        completedNames rs = [''temp_dGVtcF9kR1Z0Y0Y5_1001'', ''_1.temp_dGVtcF9kR1Z0Y0Y5_1001'']
        \<and> fmlookup fs' ''/mnt/nas/storage/Documents/temp_dGVtcF9kR1Z0Y0Y5_1001'' = None
        \<and> fmlookup fs' ''/mnt/nas/storage/Documents/_1.temp_dGVtcF9kR1Z0Y0Y5_1001''
            = Some ''second''
        \<and> fmdom fs' = {|''/mnt/nas/storage/Documents/_1.temp_dGVtcF9kR1Z0Y0Y5_1001''|})"
  by (simp add: first_upload_of_temp_name)
     (simp add: upload_eval trim_temp_name temp_temp_name numbered_temp_name)

section \<open>Uploads of whole files\<close>

lemma joinWith_butlast:
  "parts \<noteq> [] \<Longrightarrow>
   joinWith sep parts
     = joinWith sep (butlast parts) @ (if 2 \<le> length parts then sep else []) @ last parts"
proof (cases "butlast parts = []")
  case True
  assume "parts \<noteq> []"
  with True have "parts = [last parts]"
    by (metis append_butlast_last_id append_Nil)
  then obtain l where "parts = [l]" by blast
  then show ?thesis by simp
next
  case False
  assume ne: "parts \<noteq> []"
  have "2 \<le> length parts"
    using False ne by (cases parts) (auto simp: Suc_le_eq)
  moreover have "joinWith sep (butlast parts @ [last parts])
      = joinWith sep (butlast parts) @ sep @ last parts"
    using False by (rule joinWith_snoc)
  ultimately show ?thesis using ne by simp
qed

lemma stripExtension_length:
  "length s \<le> length (stripExtension s) + 1 + length (fst (pop (splitOn (CHR ''.'') s)))"
proof -
  let ?parts = "splitOn (CHR ''.'') s"
  have ne: "?parts \<noteq> []" by (rule splitOn_nonempty)
  have "s = joinWith ''.'' (butlast ?parts) @ (if 2 \<le> length ?parts then ''.'' else [])
      @ last ?parts"
    using joinWith_butlast [OF ne, of "''.''"] joinWith_splitOn [of "CHR ''.''" s] by simp
  then have "length s = length (joinWith ''.'' (butlast ?parts) @ (if 2 \<le> length ?parts then ''.'' else [])
      @ last ?parts)"
    by simp
  then have "length s \<le> length (joinWith ''.'' (butlast ?parts)) + 1 + length (last ?parts)"
    by (simp split: if_splits)
  then show ?thesis
    using ne by (auto simp: stripExtension_def pop_def Let_def)
qed

lemma generatedName_longer: "length original < length (generatedName original ts rnd)"
  using stripExtension_length [of original] toString_nonempty [of ts]
  by (cases "toString ts") (simp_all add: generatedName_def Let_def)

lemma generatedName_not_original: "generatedName original ts rnd \<noteq> original"
  using generatedName_longer [of original ts rnd] by auto

lemma generatedName_not_id: "generatedName original ts rnd \<noteq> toString ts @ ''_'' @ rnd"
  by (auto simp: generatedName_def Let_def dest!: arg_cong [where f = length])

lemma generatedName_form:
  "generatedName original ts rnd
     = stripExtension original @ ''_'' @ toString ts @ ''_'' @ rnd @ ''.''
         @ last (splitOn (CHR ''.'') original)"
  by (simp add: generatedName_def pop_def splitOn_nonempty Let_def)

text \<open>The records and the storage of a loop that runs to its end.\<close>

lemma storeFiles_result:
  assumes "storeFiles env sp d i files fs acc = (Inr recs, fs')"
  shows "recs = acc @ map (\<lambda>k. uploadedRecord env sp (i + k) (files ! k)) [0..<length files]
    \<and> fs' = foldl (\<lambda>s k. fmupd (join d (generatedName (fname (files ! k)) (now env (i + k))
                                          (random env (i + k))))
                             (fbytes (files ! k)) s)
               fs [0..<length files]"
  using assms
proof (induction files arbitrary: i fs acc)
  case Nil
  then show ?case by simp
next
  case (Cons x xs)
  let ?p = "join d (generatedName (fname x) (now env i) (random env i))"
  let ?F = "\<lambda>fl j s k. fmupd (join d (generatedName (fname (fl ! k)) (now env (j + k))
                                          (random env (j + k))))
                             (fbytes (fl ! k)) s"
  from Cons.prems obtain fs1 where w: "writeFile env (WriteUpload i) fs ?p (fbytes x) = Inr fs1"
    and s: "storeFiles env sp d (i + 1) xs fs1 (acc @ [uploadedRecord env sp i x])
        = (Inr recs, fs')"
    by (auto simp: Let_def split: sum.splits)
  from w have fs1: "fs1 = fmupd ?p (fbytes x) fs"
    by (auto simp: writeFile_def split: option.splits)
  note IH = Cons.IH [OF s]
  have m: "map (\<lambda>k. uploadedRecord env sp (i + k) ((x # xs) ! k)) [0..<length (x # xs)]
      = uploadedRecord env sp i x
          # map (\<lambda>k. uploadedRecord env sp (i + 1 + k) (xs ! k)) [0..<length xs]"
    by (simp add: upt_conv_Cons map_Suc_upt [symmetric] del: upt_Suc)
  have u: "[0..<length (x # xs)] = 0 # map Suc [0..<length xs]"
    by (simp add: upt_conv_Cons map_Suc_upt del: upt_Suc)
  have "foldl (?F (x # xs) i) fs [0..<length (x # xs)]
      = foldl (\<lambda>s k. ?F (x # xs) i s (Suc k)) (fmupd ?p (fbytes x) fs) [0..<length xs]"
    unfolding u by (simp add: foldl_map)
  also have "\<dots> = foldl (?F xs (i + 1)) fs1 [0..<length xs]"
    by (simp add: fs1)
  finally have f: "foldl (?F (x # xs) i) fs [0..<length (x # xs)] = fs'"
    using IH by simp
  have "recs = acc @ map (\<lambda>k. uploadedRecord env sp (i + k) ((x # xs) ! k))
      [0..<length (x # xs)]"
    using IH unfolding m by simp
  with f show ?case by simp
qed

text \<open>No path is empty, and a plain name of a file is not the path of its generated name.\<close>

lemma join_nonempty: "join d s \<noteq> []"
  by (simp add: join_def normalize_def Let_def)

lemma generatedName_plain:
  assumes "CHR ''/'' \<notin> set original" "CHR ''/'' \<notin> set rnd"
  shows "CHR ''/'' \<notin> set (generatedName original ts rnd)
    \<and> generatedName original ts rnd \<noteq> [] \<and> generatedName original ts rnd \<noteq> ''.''
    \<and> generatedName original ts rnd \<noteq> ''..''"
proof -
  let ?parts = "splitOn (CHR ''.'') original"
  have ne: "?parts \<noteq> []" by (rule splitOn_nonempty)
  then have "last ?parts \<in> set ?parts" by simp
  from splitOn_subset [OF this] assms(1) have ext: "CHR ''/'' \<notin> set (last ?parts)" by auto
  have "set (joinWith ''.'' ps) \<subseteq> \<Union> (set ` set ps) \<union> {CHR ''.''}" for ps
    by (induction "''.''" ps rule: joinWith.induct) auto
  moreover have "\<Union> (set ` set (butlast ?parts)) \<subseteq> set original"
    using splitOn_subset [of _ "CHR ''.''" original] in_set_butlastD by fastforce
  ultimately have "CHR ''/'' \<notin> set (joinWith ''.'' (butlast ?parts))"
    using assms(1) by fastforce
  then have base: "CHR ''/'' \<notin> set (stripExtension original)"
    using assms(1) by (simp add: stripExtension_def Let_def)
  have g: "generatedName original ts rnd
      = stripExtension original @ ''_'' @ toString ts @ ''_'' @ rnd @ ''.'' @ last ?parts"
    by (rule generatedName_form)
  have "CHR ''/'' \<notin> set (generatedName original ts rnd)"
    unfolding g using base ext assms(2) toString_no_slash by simp
  moreover have "CHR ''_'' \<in> set (generatedName original ts rnd)"
    unfolding g by simp
  then have "set (generatedName original ts rnd) \<noteq> set []"
    "set (generatedName original ts rnd) \<noteq> set ''.''"
    "set (generatedName original ts rnd) \<noteq> set ''..''"
    by auto
  then have "generatedName original ts rnd \<noteq> []" "generatedName original ts rnd \<noteq> ''.''"
    "generatedName original ts rnd \<noteq> ''..''"
    by metis+
  ultimately show ?thesis by simp
qed

lemma generated_path_not_original:
  assumes "CHR ''/'' \<notin> set original" "original \<noteq> []" "original \<noteq> ''.''" "original \<noteq> ''..''"
    and "CHR ''/'' \<notin> set rnd"
  shows "join (join storage sp) (generatedName original ts rnd) \<noteq> join (join storage sp) original"
proof -
  note g = generatedName_plain [OF assms(1) assms(5), of ts]
  have d: "join storage sp \<noteq> []" by (rule join_nonempty)
  have "join (join storage sp) (generatedName original ts rnd) = P @ generatedName original ts rnd
      \<and> join (join storage sp) original = P @ original" if "P = (if hd (join storage sp) = CHR ''/'' then ''/'' else [])
        @ (if normalizeString (hd (join storage sp) \<noteq> CHR ''/'') []
                (splitOn (CHR ''/'') (join storage sp)) = [] then []
           else joinWith ''/'' (normalizeString (hd (join storage sp) \<noteq> CHR ''/'') []
                  (splitOn (CHR ''/'') (join storage sp)))
                  @ ''/'')" for P
    using join_plain [OF _ _ _ _ d, of "generatedName original ts rnd"]
      join_plain [OF assms(1-4) d] g that
    by simp
  then show ?thesis
    using generatedName_not_original [of original ts rnd] by simp
qed

lemma handle_not_upload_response:
  "fst (handleChunkedUpload env fs chunk up ci tc fileName) \<noteq> UploadResponse ok msg recs path"
proof (cases "lt ci (Finite 0) \<or> ge ci tc \<or> le tc (Finite 0) \<or> fileName = [] \<or> trim fileName = []")
  case True
  from handle_invalid [OF True, of env fs chunk up] show ?thesis by auto
next
  case False
  let ?tp = "tempPath env up fileName"
  let ?fs1 = "afterChunk fs ?tp ci (fbytes chunk)"
  obtain c1 where c1: "fmlookup ?fs1 ?tp = Some c1" using afterChunk_temp by blast
  note pr = promote_result [OF c1, where env = env and chunk = chunk and ci = ci
      and fileName = fileName and sp = "sanitize up" and d = "uploadDir env up"]
  from False have v: "\<not> lt ci (Finite 0)" "\<not> ge ci tc" "\<not> le tc (Finite 0)" "fileName \<noteq> []"
    "trim fileName \<noteq> []" by auto
  show ?thesis
    using pr unfolding handle_valid [OF v]
    by (auto simp: chunkFailure_def completed_def split: option.splits prod.splits)
qed

lemma POST_whole_files:
  assumes "POST env fs formData = (UploadResponse ok msg recs path, fs')"
  shows "storeFiles env
           (sanitize (case fdPath formData of None \<Rightarrow> ''/'' | Some p \<Rightarrow> if p = [] then ''/'' else p))
           (uploadDir env
              (case fdPath formData of None \<Rightarrow> ''/'' | Some p \<Rightarrow> if p = [] then ''/'' else p))
           0 (fdFiles formData) fs [] = (Inr recs, fs')"
  using assms handle_not_upload_response
  by (auto simp: POST_def Let_def uploadDir_def
      split: if_splits option.splits prod.splits sum.splits)
     (metis fst_conv)+

lemma generatedName_photo: "generatedName ''photo.png'' 1000 ''k3x9qz'' = ''photo_1000_k3x9qz.png''"
  using generatedName_form [of "''photo.png''" 1000 "''k3x9qz''"]
  by (simp add: stripExtension_def toString.simps digitChar_simps Let_def)

lemma POST_photo:
  "POST (calm 1000) fmempty
     \<lparr> fdFiles = [\<lparr> fname = ''photo.png'', ftype = ''image/png'', fbytes = ''abc'' \<rparr>],
       fdPath = Some ''Documents'', fdChunkIndex = None, fdTotalChunks = None,
       fdFileName = None \<rparr>
   = (UploadResponse True ''Successfully uploaded 1 file(s)''
        [\<lparr> recId = ''1000_k3x9qz'', recName = ''photo.png'', originalName = ''photo.png'',
            recSize = 3, recType = ''image/png'',
            recPath = ''Documents/photo_1000_k3x9qz.png'',
            uploadedAt = ''2024-01-01T00:00:00.000Z'', sizeFormatted = ''3 B'' \<rparr>]
        ''Documents'',
      fmupd ''/mnt/nas/storage/Documents/photo_1000_k3x9qz.png'' ''abc'' fmempty)"
  by (simp add: POST_def uploadedRecord_def generatedName_photo sanitize_Documents calm_def
      writeFile_def join_storage join_Documents length_3 formatSize_3 toString.simps
      digitChar_simps)

text \<open>
  Claim C10. An upload of whole files that succeeds writes the bytes of every file, in
  the order of the form, to the path of its generated name \<open>base_timestamp_random.ext\<close> in
  the upload directory, and writes nothing else: the storage afterwards is the storage
  before with these writes. The generated name is never the name the file came with, and
  for a plain name (no slash, not empty, neither \<open>.\<close> nor \<open>..\<close>; the random suffix has no
  slash) the path written is not the path of the original name. The record returned for
  a file has the original name as \<open>name\<close> and as \<open>originalName\<close>, the length of the file as
  \<open>size\<close>, and the generated name only at the end of its \<open>path\<close>. The last chunk of a
  chunked upload, on the contrary, keeps the requested name when neither a file nor a
  directory stands at it: the record carries the requested name, and the content of the
  temp file stands at that name.
\<close>

theorem whole_file_upload_names:
  "(POST env fs formData = (UploadResponse ok msg recs path, fs') \<longrightarrow>
      (let files = fdFiles formData;
           dest = (case fdPath formData of
                     None \<Rightarrow> ''/''
                   | Some p \<Rightarrow> if p = [] then ''/'' else p);
           stored = (\<lambda>k. generatedName (fname (files ! k)) (now env k) (random env k))
       in length recs = length files
        \<and> fs' = foldl (\<lambda>s k. fmupd (join (uploadDir env dest) (stored k)) (fbytes (files ! k)) s)
                   fs [0..<length files]
        \<and> (length files = 1 \<longrightarrow>
              fs' = fmupd (join (uploadDir env dest) (stored 0)) (fbytes (files ! 0)) fs)
        \<and> (\<forall>k<length files.
              stored k \<noteq> fname (files ! k)
              \<and> (CHR ''/'' \<notin> set (fname (files ! k)) \<and> fname (files ! k) \<noteq> []
                   \<and> fname (files ! k) \<noteq> ''.'' \<and> fname (files ! k) \<noteq> ''..''
                   \<and> CHR ''/'' \<notin> set (random env k) \<longrightarrow>
                 join (uploadDir env dest) (stored k)
                   \<noteq> join (uploadDir env dest) (fname (files ! k)))
              \<and> recName (recs ! k) = fname (files ! k)
              \<and> originalName (recs ! k) = fname (files ! k)
              \<and> recName (recs ! k) \<noteq> stored k
              \<and> recId (recs ! k) \<noteq> stored k
              \<and> recPath (recs ! k) = sanitize dest @ ''/'' @ stored k
              \<and> recSize (recs ! k) = length (fbytes (files ! k)))))
   \<and> generatedName original ts rnd
       = stripExtension original @ ''_'' @ toString ts @ ''_'' @ rnd @ ''.''
           @ last (splitOn (CHR ''.'') original)
   \<and> generatedName original ts rnd \<noteq> original
   \<and> (handleChunkedUpload env fs chunk up ci tc fileName
          = (CompletedResponse ok' msg' files p fin, fs'')
        \<and> \<not> existsSync env (afterChunk fs (tempPath env up fileName) ci (fbytes chunk))
               (join (uploadDir env up) fileName)
        \<longrightarrow> (\<exists>rec c. files = [rec] \<and> recName rec = fileName
               \<and> fmlookup (afterChunk fs (tempPath env up fileName) ci (fbytes chunk))
                     (tempPath env up fileName) = Some c
               \<and> fmlookup fs'' (join (uploadDir env up) fileName) = Some c))"
proof -
  let ?dest = "case fdPath formData of None \<Rightarrow> ''/'' | Some p \<Rightarrow> if p = [] then ''/'' else p"
  let ?files = "fdFiles formData"
  let ?stored = "\<lambda>k. generatedName (fname (?files ! k)) (now env k) (random env k)"
  let ?dir = "uploadDir env ?dest"
  have a: "length recs = length ?files
        \<and> fs' = foldl (\<lambda>s k. fmupd (join ?dir (?stored k)) (fbytes (?files ! k)) s)
                   fs [0..<length ?files]
        \<and> (length ?files = 1 \<longrightarrow>
              fs' = fmupd (join ?dir (?stored 0)) (fbytes (?files ! 0)) fs)
        \<and> (\<forall>k<length ?files.
              ?stored k \<noteq> fname (?files ! k)
              \<and> (CHR ''/'' \<notin> set (fname (?files ! k)) \<and> fname (?files ! k) \<noteq> []
                   \<and> fname (?files ! k) \<noteq> ''.'' \<and> fname (?files ! k) \<noteq> ''..''
                   \<and> CHR ''/'' \<notin> set (random env k) \<longrightarrow>
                 join ?dir (?stored k) \<noteq> join ?dir (fname (?files ! k)))
              \<and> recName (recs ! k) = fname (?files ! k)
              \<and> originalName (recs ! k) = fname (?files ! k)
              \<and> recName (recs ! k) \<noteq> ?stored k
              \<and> recId (recs ! k) \<noteq> ?stored k
              \<and> recPath (recs ! k) = sanitize ?dest @ ''/'' @ ?stored k
              \<and> recSize (recs ! k) = length (fbytes (?files ! k)))"
    if h: "POST env fs formData = (UploadResponse ok msg recs path, fs')"
  proof -
    note st = storeFiles_result [OF POST_whole_files [OF h]]
    from st have recs: "recs = map (\<lambda>k. uploadedRecord env (sanitize ?dest) k (?files ! k))
        [0..<length ?files]"
      by simp
    from st have fs': "fs' = foldl (\<lambda>s k. fmupd (join ?dir (?stored k)) (fbytes (?files ! k)) s)
                   fs [0..<length ?files]"
      by simp
    have one: "fs' = fmupd (join ?dir (?stored 0)) (fbytes (?files ! 0)) fs"
      if "length ?files = 1"
      unfolding fs' that by simp
    have paths: "join ?dir (?stored k) \<noteq> join ?dir (fname (?files ! k))"
      if "CHR ''/'' \<notin> set (fname (?files ! k))" "fname (?files ! k) \<noteq> []"
        "fname (?files ! k) \<noteq> ''.''" "fname (?files ! k) \<noteq> ''..''"
        "CHR ''/'' \<notin> set (random env k)" for k
      unfolding uploadDir_def by (rule generated_path_not_original [OF that])
    have each: "?stored k \<noteq> fname (?files ! k)
              \<and> recName (recs ! k) = fname (?files ! k)
              \<and> originalName (recs ! k) = fname (?files ! k)
              \<and> recName (recs ! k) \<noteq> ?stored k
              \<and> recId (recs ! k) \<noteq> ?stored k
              \<and> recPath (recs ! k) = sanitize ?dest @ ''/'' @ ?stored k
              \<and> recSize (recs ! k) = length (fbytes (?files ! k))"
      if "k < length ?files" for k
      using that generatedName_not_original generatedName_not_original [THEN not_sym]
        generatedName_not_id generatedName_not_id [THEN not_sym]
      by (simp add: recs uploadedRecord_def Let_def)
    from recs have "length recs = length ?files" by simp
    with fs' one paths each show ?thesis by blast
  qed
  have b: "\<exists>rec c. files = [rec] \<and> recName rec = fileName
               \<and> fmlookup (afterChunk fs (tempPath env up fileName) ci (fbytes chunk))
                     (tempPath env up fileName) = Some c
               \<and> fmlookup fs'' (join (uploadDir env up) fileName) = Some c"
    if h: "handleChunkedUpload env fs chunk up ci tc fileName
          = (CompletedResponse ok' msg' files p fin, fs'')"
      and free: "\<not> existsSync env (afterChunk fs (tempPath env up fileName) ci (fbytes chunk))
               (join (uploadDir env up) fileName)"
  proof -
    from handle_completed [OF h] obtain rec c where r: "files = [rec]"
      "fmlookup (afterChunk fs (tempPath env up fileName) ci (fbytes chunk))
         (tempPath env up fileName) = Some c"
      "fmlookup fs'' (join (uploadDir env up) (recName rec)) = Some c"
      by blast
    from handle_completed_name [OF h] r(1) free have "recName rec = fileName" by auto
    with r show ?thesis by auto
  qed
  from a have a': "POST env fs formData = (UploadResponse ok msg recs path, fs') \<longrightarrow>
      (let files = fdFiles formData;
           dest = ?dest;
           stored = (\<lambda>k. generatedName (fname (files ! k)) (now env k) (random env k))
       in length recs = length files
        \<and> fs' = foldl (\<lambda>s k. fmupd (join (uploadDir env dest) (stored k)) (fbytes (files ! k)) s)
                   fs [0..<length files]
        \<and> (length files = 1 \<longrightarrow>
              fs' = fmupd (join (uploadDir env dest) (stored 0)) (fbytes (files ! 0)) fs)
        \<and> (\<forall>k<length files.
              stored k \<noteq> fname (files ! k)
              \<and> (CHR ''/'' \<notin> set (fname (files ! k)) \<and> fname (files ! k) \<noteq> []
                   \<and> fname (files ! k) \<noteq> ''.'' \<and> fname (files ! k) \<noteq> ''..''
                   \<and> CHR ''/'' \<notin> set (random env k) \<longrightarrow>
                 join (uploadDir env dest) (stored k)
                   \<noteq> join (uploadDir env dest) (fname (files ! k)))
              \<and> recName (recs ! k) = fname (files ! k)
              \<and> originalName (recs ! k) = fname (files ! k)
              \<and> recName (recs ! k) \<noteq> stored k
              \<and> recId (recs ! k) \<noteq> stored k
              \<and> recPath (recs ! k) = sanitize dest @ ''/'' @ stored k
              \<and> recSize (recs ! k) = length (fbytes (files ! k))))"
    unfolding Let_def by blast
  from a' b generatedName_form [of original ts rnd] generatedName_not_original [of original ts rnd]
  show ?thesis by blast
qed

theorem whole_file_upload_names_witness:
  "POST (calm 1000) fmempty
        \<lparr> fdFiles = [\<lparr> fname = ''photo.png'', ftype = ''image/png'', fbytes = ''abc'' \<rparr>],
          fdPath = Some ''Documents'', fdChunkIndex = None, fdTotalChunks = None,
          fdFileName = None \<rparr>
     = (UploadResponse True ''Successfully uploaded 1 file(s)''
          [\<lparr> recId = ''1000_k3x9qz'', recName = ''photo.png'', originalName = ''photo.png'',
              recSize = 3, recType = ''image/png'',
              recPath = ''Documents/photo_1000_k3x9qz.png'',
              uploadedAt = ''2024-01-01T00:00:00.000Z'', sizeFormatted = ''3 B'' \<rparr>]
          ''Documents'',
        fmupd ''/mnt/nas/storage/Documents/photo_1000_k3x9qz.png'' ''abc'' fmempty)
   \<and> fmupd (join (uploadDir (calm 1000) ''Documents'')
              (generatedName ''photo.png'' (now (calm 1000) 0) (random (calm 1000) 0)))
        ''abc'' fmempty
     = fmupd ''/mnt/nas/storage/Documents/photo_1000_k3x9qz.png'' ''abc'' fmempty
   \<and> join (uploadDir (calm 1000) ''Documents'')
        (generatedName ''photo.png'' (now (calm 1000) 0) (random (calm 1000) 0))
     \<noteq> join (uploadDir (calm 1000) ''Documents'') ''photo.png''
   \<and> generatedName ''photo.png'' 1000 ''k3x9qz'' = ''photo_1000_k3x9qz.png''
   \<and> (\<exists>rec fs'. handleChunkedUpload (calm 1001)
                    (fmupd ''/mnt/nas/storage/Documents/temp_YS50eHQ_1000'' ''hello '' fmempty)
                    (blob ''world'') ''Documents'' (Finite 1) (Finite 2) ''a.txt''
                  = (CompletedResponse True ''Chunked upload completed successfully'' [rec]
                       ''Documents'' True, fs')
        \<and> recName rec = ''a.txt''
        \<and> fmlookup fs' ''/mnt/nas/storage/Documents/a.txt'' = Some ''world'')"
proof -
  let ?photo = "\<lparr> fname = ''photo.png'', ftype = ''image/png'', fbytes = ''abc'' \<rparr>"
  let ?form = "\<lparr> fdFiles = [?photo],
          fdPath = Some ''Documents'', fdChunkIndex = None, fdTotalChunks = None,
          fdFileName = None \<rparr>"
  let ?fs = "fmupd ''/mnt/nas/storage/Documents/temp_YS50eHQ_1000'' ''hello '' fmempty"
  let ?stored = "generatedName ''photo.png'' (now (calm 1000) 0) (random (calm 1000) 0)"
  have dirs: "directories (calm 1001)
      = {|''/'', ''/mnt'', ''/mnt/nas'', ''/mnt/nas/storage'', ''/mnt/nas/storage/Documents''|}"
    by (simp add: calm_def)
  have free: "\<not> existsSync (calm 1001)
      (afterChunk ?fs (tempPath (calm 1001) ''Documents'' ''a.txt'') (Finite 1) (fbytes (blob ''world'')))
      (join (uploadDir (calm 1001) ''Documents'') ''a.txt'')"
    by (simp add: afterChunk_def tempPath_def uploadDir_calm now_calm temp_a_txt_1001
        join_Documents existsSync_def dirs)
  note t = whole_file_upload_names [where env = "calm 1000" and fs = fmempty and formData = ?form
      and original = "''photo.png''" and ts = 1000 and rnd = "''k3x9qz''",
      THEN conjunct1, rule_format, OF POST_photo, unfolded Let_def]
  note u = whole_file_upload_names [where env = "calm 1001" and fs = ?fs
      and chunk = "blob ''world''" and up = "''Documents''" and ci = "Finite 1"
      and tc = "Finite 2" and fileName = "''a.txt''",
      THEN conjunct2, THEN conjunct2, THEN conjunct2, rule_format,
      OF conjI, OF second_chunk_1001 free]
  have r: "random (calm 1000) 0 = ''k3x9qz''" by (simp add: calm_def)
  have w: "fmupd ''/mnt/nas/storage/Documents/photo_1000_k3x9qz.png'' ''abc'' fmempty
      = fmupd (join (uploadDir (calm 1000) ''Documents'') ?stored) ''abc'' fmempty"
    by (simp add: r now_calm uploadDir_calm generatedName_photo join_Documents)
  from t have "join (uploadDir (calm 1000) ''Documents'') ?stored
      \<noteq> join (uploadDir (calm 1000) ''Documents'') ''photo.png''"
    by (simp add: r)
  moreover from u
  have "\<exists>rec fs'. handleChunkedUpload (calm 1001) ?fs
                    (blob ''world'') ''Documents'' (Finite 1) (Finite 2) ''a.txt''
                  = (CompletedResponse True ''Chunked upload completed successfully'' [rec]
                       ''Documents'' True, fs')
        \<and> recName rec = ''a.txt''
        \<and> fmlookup fs' ''/mnt/nas/storage/Documents/a.txt'' = Some ''world''"
    by (simp add: second_chunk_1001)
  ultimately show ?thesis using POST_photo generatedName_photo w by simp
qed

section \<open>The uploader: chunks, retries and the order of requests\<close>

text \<open>The retry loop of a chunk, unfolded: at most three calls of \<open>fetch\<close>.\<close>

lemma sendChunk_unfold:
  "sendChunk net file fi T fd k n 0 u =
     (case tryFetch (net n) of
        Inr (d, fs) \<Rightarrow>
          ([Fetch fd, chunkProgress file fi T (u + 1)],
           if d \<and> fs \<noteq> [] then Returned (hd fs) else Continue (u + 1), n + 1)
      | Inl e1 \<Rightarrow>
          (case tryFetch (net (n + 1)) of
             Inr (d, fs) \<Rightarrow>
               ([Fetch fd, Sleep 1000, Fetch fd, chunkProgress file fi T (u + 1)],
                if d \<and> fs \<noteq> [] then Returned (hd fs) else Continue (u + 1), n + 2)
           | Inl e2 \<Rightarrow>
               (case tryFetch (net (n + 2)) of
                  Inr (d, fs) \<Rightarrow>
                    ([Fetch fd, Sleep 1000, Fetch fd, Sleep 2000, Fetch fd,
                      chunkProgress file fi T (u + 1)],
                     if d \<and> fs \<noteq> [] then Returned (hd fs) else Continue (u + 1), n + 3)
                | Inl e3 \<Rightarrow>
                    ([Fetch fd, Sleep 1000, Fetch fd, Sleep 2000, Fetch fd],
                     Thrown (''Chunk '' @ toString (k + 1) @ '' failed after 3 attempts: '' @ e3),
                     n + 3))))"
proof -
  have three: "toString 3 = ''3''"
    by (simp add: toString.simps digitChar_simps)
  have s2: "sendChunk net file fi T fd k m (Suc (Suc 0)) u =
     (case tryFetch (net m) of
        Inr (d, fs) \<Rightarrow>
          ([Fetch fd, chunkProgress file fi T (u + 1)],
           if d \<and> fs \<noteq> [] then Returned (hd fs) else Continue (u + 1), m + 1)
      | Inl e3 \<Rightarrow>
          ([Fetch fd],
           Thrown (''Chunk '' @ toString (k + 1) @ '' failed after 3 attempts: '' @ e3), m + 1))"
    for m
    by (subst sendChunk.simps) (simp add: three maxRetries_def Let_def split: sum.splits)
  have s1: "sendChunk net file fi T fd k m (Suc 0) u =
     (case tryFetch (net m) of
        Inr (d, fs) \<Rightarrow>
          ([Fetch fd, chunkProgress file fi T (u + 1)],
           if d \<and> fs \<noteq> [] then Returned (hd fs) else Continue (u + 1), m + 1)
      | Inl e2 \<Rightarrow>
          (case sendChunk net file fi T fd k (m + 1) (Suc (Suc 0)) u of
             (evs, r) \<Rightarrow> (Fetch fd # Sleep 2000 # evs, r)))"
    for m
    by (subst sendChunk.simps) (simp add: maxRetries_def Let_def split: sum.splits)
  have s0: "sendChunk net file fi T fd k n 0 u =
     (case tryFetch (net n) of
        Inr (d, fs) \<Rightarrow>
          ([Fetch fd, chunkProgress file fi T (u + 1)],
           if d \<and> fs \<noteq> [] then Returned (hd fs) else Continue (u + 1), n + 1)
      | Inl e1 \<Rightarrow>
          (case sendChunk net file fi T fd k (n + 1) (Suc 0) u of
             (evs, r) \<Rightarrow> (Fetch fd # Sleep 1000 # evs, r)))"
    by (subst sendChunk.simps) (simp add: maxRetries_def Let_def split: sum.splits)
  show ?thesis
    unfolding s0 s1 s2 by (simp add: numeral_2_eq_2 numeral_3_eq_3 split: sum.splits prod.splits)
qed

lemma uploadChunks_end:
  "\<not> k < T \<Longrightarrow>
   uploadChunks env net C file up fi T k n u = ([], Inr (fallbackRecord env file up))"
  by (subst uploadChunks.simps) simp

lemma uploadChunks_step:
  "k < T \<Longrightarrow>
   uploadChunks env net C file up fi T k n u =
     (case sendChunk net file fi T (chunkFormData C file up T k) k n 0 u of
        (evs, Thrown m, n') \<Rightarrow> (evs, Inl m)
      | (evs, Returned r, n') \<Rightarrow> (evs, Inr r)
      | (evs, Continue u', n') \<Rightarrow>
          (case uploadChunks env net C file up fi T (k + 1) n' u' of
             (evs', r) \<Rightarrow> (evs @ evs', r)))"
  by (subst uploadChunks.simps) (simp add: Let_def)

text \<open>A chunk whose three attempts fail ends the loop: nothing is sent after it.\<close>

lemma uploadChunks_exhausted:
  assumes "k < T" "tryFetch (net n) = Inl e1" "tryFetch (net (n + 1)) = Inl e2"
    "tryFetch (net (n + 2)) = Inl e3"
  shows "uploadChunks env net C file up fi T k n u =
    ([Fetch (chunkFormData C file up T k), Sleep 1000, Fetch (chunkFormData C file up T k),
      Sleep 2000, Fetch (chunkFormData C file up T k)],
     Inl (''Chunk '' @ toString (k + 1) @ '' failed after 3 attempts: '' @ e3))"
  using assms by (simp add: uploadChunks_step sendChunk_unfold)

text \<open>The requests of one chunk: the same form, one to three times.\<close>

lemma sendChunk_requests:
  "\<exists>a. 1 \<le> a \<and> a \<le> 3
     \<and> requests (fst (sendChunk net file fi T fd k n 0 u)) = replicate a fd"
proof -
  have r: "replicate 1 fd = [fd]" "replicate 2 fd = [fd, fd]" "replicate 3 fd = [fd, fd, fd]"
    by (simp_all add: numeral_2_eq_2 numeral_3_eq_3)
  have "requests (fst (sendChunk net file fi T fd k n 0 u)) \<in> {[fd], [fd, fd], [fd, fd, fd]}"
    by (simp add: sendChunk_unfold chunkProgress_def Let_def split: sum.splits prod.splits)
  then consider "requests (fst (sendChunk net file fi T fd k n 0 u)) = replicate 1 fd"
    | "requests (fst (sendChunk net file fi T fd k n 0 u)) = replicate 2 fd"
    | "requests (fst (sendChunk net file fi T fd k n 0 u)) = replicate 3 fd"
    using r by auto
  then show ?thesis
  proof cases
    case 1
    then show ?thesis by (intro exI [of _ 1]) simp
  next
    case 2
    then show ?thesis by (intro exI [of _ 2]) simp
  next
    case 3
    then show ?thesis by (intro exI [of _ 3]) simp
  qed
qed

text \<open>
  Whatever the requests come to, they go out in the order of the chunks: chunk \<open>j\<close>
  one to three times, then chunk \<open>j + 1\<close> one to three times, and so on, up to the chunk
  at which the loop is left.
\<close>

lemma uploadChunks_order:
  "\<exists>as. (\<forall>a\<in>set as. 1 \<le> a \<and> a \<le> 3) \<and> j + length as \<le> max j T \<and> (j < T \<longrightarrow> as \<noteq> [])
     \<and> requests (fst (uploadChunks env net C file up fi T j n u))
         = concat (map2 (\<lambda>k a. replicate a (chunkFormData C file up T k))
                     [j..<j + length as] as)"
proof (induction "T - j" arbitrary: j n u)
  case 0
  then have "\<not> j < T" by simp
  then show ?case
    by (intro exI [of _ "[]"]) (simp add: uploadChunks_end)
next
  case (Suc d)
  then have lt: "j < T" and d: "d = T - (j + 1)" by simp_all
  let ?fd = "chunkFormData C file up T j"
  obtain evs out n' where s: "sendChunk net file fi T ?fd j n 0 u = (evs, out, n')"
    by (cases "sendChunk net file fi T ?fd j n 0 u") auto
  have "\<exists>a. 1 \<le> a \<and> a \<le> 3
     \<and> requests (fst (sendChunk net file fi T ?fd j n 0 u)) = replicate a ?fd"
    by (rule sendChunk_requests)
  with s obtain a where a: "1 \<le> a" "a \<le> 3" "requests evs = replicate a ?fd" by auto
  have app: "requests (xs @ ys) = requests xs @ requests ys" for xs ys
    by (induction xs rule: requests.induct) simp_all
  show ?case
  proof (cases out)
    case (Continue u')
    from Suc.hyps(1) [OF d, of n' u'] obtain as where as: "\<forall>a\<in>set as. 1 \<le> a \<and> a \<le> 3"
      "j + 1 + length as \<le> max (j + 1) T"
      "requests (fst (uploadChunks env net C file up fi T (j + 1) n' u'))
         = concat (map2 (\<lambda>k a. replicate a (chunkFormData C file up T k))
                     [j + 1..<j + 1 + length as] as)"
      by blast
    have "requests (fst (uploadChunks env net C file up fi T j n u))
        = replicate a ?fd @ requests (fst (uploadChunks env net C file up fi T (j + 1) n' u'))"
      using lt s Continue a(3) by (simp add: uploadChunks_step app split: prod.splits)
    also have "\<dots> = concat (map2 (\<lambda>k a. replicate a (chunkFormData C file up T k))
                     (j # [j + 1..<j + 1 + length as]) (a # as))"
      unfolding as(3) by simp
    also have "j # [j + 1..<j + 1 + length as] = [j..<j + length (a # as)]"
      by (simp add: upt_conv_Cons del: upt_Suc)
    finally show ?thesis
      using as(1,2) a(1,2) lt by (intro exI [of _ "a # as"]) auto
  next
    case (Thrown m)
    then have "requests (fst (uploadChunks env net C file up fi T j n u)) = replicate a ?fd"
      using lt s a(3) by (simp add: uploadChunks_step)
    then show ?thesis
      using a(1,2) lt by (intro exI [of _ "[a]"]) (simp add: upt_conv_Cons del: upt_Suc)
  next
    case (Returned r)
    then have "requests (fst (uploadChunks env net C file up fi T j n u)) = replicate a ?fd"
      using lt s a(3) by (simp add: uploadChunks_step)
    then show ?thesis
      using a(1,2) lt by (intro exI [of _ "[a]"]) (simp add: upt_conv_Cons del: upt_Suc)
  qed
qed


text \<open>The slices of the chunks, one after the other, are the bytes of the file.\<close>

lemma slice_chunk:
  "slice b (K * C) (min (K * C + C) (length b)) = take C (drop (K * C) b)"
  by (simp add: slice_def min_def)

lemma concat_chunks:
  "concat (map (\<lambda>K. take C (drop (K * C) b)) [0..<T]) = take (T * C) b"
proof (induction T)
  case 0
  show ?case by simp
next
  case (Suc T)
  have "take (Suc T * C) b = take (T * C + C) b" by (simp add: add.commute)
  also have "\<dots> = take (T * C) b @ take C (drop (T * C) b)" by (rule take_add)
  finally show ?case using Suc by simp
qed

lemma chunks_cover:
  assumes "0 < C"
  shows "S \<le> nat \<lceil>real S / real C\<rceil> * C"
proof -
  have "real S / real C \<le> of_int \<lceil>real S / real C\<rceil>" by (rule le_of_int_ceiling)
  also have "\<dots> = real (nat \<lceil>real S / real C\<rceil>)" by simp
  finally have "real S / real C \<le> real (nat \<lceil>real S / real C\<rceil>)" .
  from mult_right_mono [OF this, of "real C"]
  have "real S \<le> real (nat \<lceil>real S / real C\<rceil>) * real C"
    using assms by simp
  then have "real S \<le> real (nat \<lceil>real S / real C\<rceil> * C)" by simp
  then show ?thesis by (simp only: of_nat_le_iff)
qed

lemma concat_slices:
  assumes "0 < C"
  shows "concat (map (\<lambda>K. slice b (K * C) (min ((K + 1) * C) (length b)))
            [0..<nat \<lceil>real (length b) / real C\<rceil>]) = b"
proof -
  have "(\<lambda>K. slice b (K * C) (min ((K + 1) * C) (length b))) = (\<lambda>K. take C (drop (K * C) b))"
    using slice_chunk [of b _ C] by (simp add: add.commute)
  then show ?thesis
    using chunks_cover [OF assms, of "length b"] by (simp add: concat_chunks)
qed

lemma requests_append: "requests (xs @ ys) = requests xs @ requests ys"
  by (induction xs rule: requests.induct) simp_all

text \<open>
  When every chunk is acknowledged at its first attempt, and no response before the last
  is a completed one, each chunk is sent once.
\<close>

lemma uploadChunks_acknowledged:
  assumes "\<forall>k. j \<le> k \<and> k < T \<longrightarrow>
      (\<exists>d fs. tryFetch (net (n + (k - j))) = Inr (d, fs) \<and> (k + 1 < T \<longrightarrow> \<not> (d \<and> fs \<noteq> [])))"
  shows "requests (fst (uploadChunks env net C file up fi T j n u))
          = map (chunkFormData C file up T) [j..<T]"
  using assms
proof (induction "T - j" arbitrary: j n u)
  case 0
  then have "\<not> j < T" by simp
  then show ?case by (simp add: uploadChunks_end)
next
  case (Suc x)
  then have lt: "j < T" and x: "x = T - (j + 1)" by simp_all
  let ?fd = "chunkFormData C file up T j"
  from Suc.prems [rule_format, of j] lt
  have "\<exists>d fs. tryFetch (net (n + (j - j))) = Inr (d, fs) \<and> (j + 1 < T \<longrightarrow> \<not> (d \<and> fs \<noteq> []))"
    by simp
  then obtain d fs where ack: "tryFetch (net n) = Inr (d, fs)"
    "j + 1 < T \<longrightarrow> \<not> (d \<and> fs \<noteq> [])"
    by auto
  have sent: "sendChunk net file fi T ?fd j n 0 u =
      ([Fetch ?fd, chunkProgress file fi T (u + 1)],
       if d \<and> fs \<noteq> [] then Returned (hd fs) else Continue (u + 1), n + 1)"
    by (simp add: sendChunk_unfold ack(1))
  have prog: "requests [Fetch ?fd, chunkProgress file fi T (u + 1)] = [?fd]"
    by (simp add: chunkProgress_def Let_def)
  have up: "[j..<T] = j # [j + 1..<T]"
    using lt by (simp add: upt_conv_Cons)
  show ?case
  proof (cases "j + 1 < T")
    case True
    have next_acks: "\<forall>k. j + 1 \<le> k \<and> k < T \<longrightarrow>
      (\<exists>d fs. tryFetch (net (n + 1 + (k - (j + 1)))) = Inr (d, fs)
         \<and> (k + 1 < T \<longrightarrow> \<not> (d \<and> fs \<noteq> [])))"
    proof (intro allI impI)
      fix k assume k: "j + 1 \<le> k \<and> k < T"
      then have e: "n + 1 + (k - (j + 1)) = n + (k - j)" by arith
      from k have "j \<le> k \<and> k < T" by simp
      from Suc.prems [rule_format, OF this]
      show "\<exists>d fs. tryFetch (net (n + 1 + (k - (j + 1)))) = Inr (d, fs)
         \<and> (k + 1 < T \<longrightarrow> \<not> (d \<and> fs \<noteq> []))"
        unfolding e .
    qed
    from Suc.hyps(1) [OF x next_acks]
    have ih: "requests (fst (uploadChunks env net C file up fi T (j + 1) (n + 1) (u + 1)))
          = map (chunkFormData C file up T) [j + 1..<T]" .
    from True ack(2) have c: "\<not> (d \<and> fs \<noteq> [])" by simp
    have "uploadChunks env net C file up fi T j n u =
        (case uploadChunks env net C file up fi T (j + 1) (n + 1) (u + 1) of
           (evs', r) \<Rightarrow> ([Fetch ?fd, chunkProgress file fi T (u + 1)] @ evs', r))"
      by (simp add: uploadChunks_step [OF lt] sent if_not_P [OF c])
    then have "requests (fst (uploadChunks env net C file up fi T j n u))
        = requests ([Fetch ?fd, chunkProgress file fi T (u + 1)]
            @ fst (uploadChunks env net C file up fi T (j + 1) (n + 1) (u + 1)))"
      by (simp add: case_prod_beta)
    then show ?thesis
      unfolding requests_append prog ih up by simp
  next
    case False
    with lt have e: "[j + 1..<T] = []" and n: "\<not> j + 1 < T" by simp_all
    have "requests (fst (uploadChunks env net C file up fi T j n u))
        = requests [Fetch ?fd, chunkProgress file fi T (u + 1)]"
    proof (cases "d \<and> fs \<noteq> []")
      case True
      show ?thesis
        by (simp add: uploadChunks_step [OF lt] sent if_P [OF True])
    next
      case False
      have "uploadChunks env net C file up fi T (j + 1) (n + 1) (u + 1)
          = ([], Inr (fallbackRecord env file up))"
        by (rule uploadChunks_end [OF n])
      then show ?thesis
        by (simp add: uploadChunks_step [OF lt] sent if_not_P [OF False])
    qed
    then show ?thesis
      unfolding prog up e by simp
  qed
qed

section \<open>The requests of a call of \<open>uploadFiles\<close>\<close>

lemma uploadLoop_requests_Cons:
  "requests (fst (uploadLoop env net xhr C up i (x # xs)))
     = requests (fst (if length (fbytes x) > C then uploadLargeFile env (net i) C x up i
                      else uploadSmallFile (xhr i) x up i))
       @ requests (fst (uploadLoop env net xhr C up (i + 1) xs))"
  by (simp add: Let_def requests_append split: prod.splits sum.splits)

lemma uploadLoop_requests_append:
  "requests (fst (uploadLoop env net xhr C up i (xs @ ys)))
     = requests (fst (uploadLoop env net xhr C up i xs))
       @ requests (fst (uploadLoop env net xhr C up (i + length xs) ys))"
proof (induction xs arbitrary: i)
  case Nil
  show ?case by simp
next
  case (Cons x xs)
  have "requests (fst (uploadLoop env net xhr C up i ((x # xs) @ ys)))
      = requests (fst (if length (fbytes x) > C then uploadLargeFile env (net i) C x up i
                      else uploadSmallFile (xhr i) x up i))
        @ requests (fst (uploadLoop env net xhr C up (i + 1) (xs @ ys)))"
    unfolding append_Cons by (rule uploadLoop_requests_Cons)
  also have "requests (fst (uploadLoop env net xhr C up (i + 1) (xs @ ys)))
      = requests (fst (uploadLoop env net xhr C up (i + 1) xs))
        @ requests (fst (uploadLoop env net xhr C up (i + 1 + length xs) ys))"
    by (rule Cons.IH)
  finally show ?case
    unfolding uploadLoop_requests_Cons [of env net xhr C up i x xs] by simp
qed

lemma uploadFiles_requests:
  "requests (fst (uploadFiles env net xhr configured (xs @ x # ys) up))
     = requests (fst (uploadLoop env net xhr (CHUNK_SIZE configured) up 0 xs))
       @ requests (fst (if length (fbytes x) > CHUNK_SIZE configured
                        then uploadLargeFile env (net (length xs)) (CHUNK_SIZE configured) x up
                               (length xs)
                        else uploadSmallFile (xhr (length xs)) x up (length xs)))
       @ requests (fst (uploadLoop env net xhr (CHUNK_SIZE configured) up (length xs + 1) ys))"
proof -
  have "fst (uploadFiles env net xhr configured (xs @ x # ys) up)
      = fst (uploadLoop env net xhr (CHUNK_SIZE configured) up 0 (xs @ x # ys))"
    by (simp add: uploadFiles_def split: prod.splits)
  then show ?thesis
    by (simp only: uploadLoop_requests_append uploadLoop_requests_Cons add_0)
qed

lemma uploadSmallFile_requests:
  "requests (fst (uploadSmallFile x f up i))
     = [\<lparr> fdFiles = [f], fdPath = Some up, fdChunkIndex = None, fdTotalChunks = None,
          fdFileName = None \<rparr>]"
  by (simp add: uploadSmallFile_def)

lemma uploadLargeFile_order:
  "\<exists>as. length as \<le> nat \<lceil>real (length (fbytes f)) / real C\<rceil> \<and> (\<forall>a\<in>set as. 1 \<le> a \<and> a \<le> 3)
     \<and> (0 < nat \<lceil>real (length (fbytes f)) / real C\<rceil> \<longrightarrow> as \<noteq> [])
     \<and> requests (fst (uploadLargeFile env net C f up i))
         = concat (map2 (\<lambda>K a. replicate a
                      (chunkFormData C f up (nat \<lceil>real (length (fbytes f)) / real C\<rceil>) K))
                     [0..<length as] as)"
proof -
  let ?T = "nat \<lceil>real (length (fbytes f)) / real C\<rceil>"
  have "\<exists>as. (\<forall>a\<in>set as. 1 \<le> a \<and> a \<le> 3) \<and> 0 + length as \<le> max 0 ?T
     \<and> (0 < ?T \<longrightarrow> as \<noteq> [])
     \<and> requests (fst (uploadChunks env net C f up i ?T 0 0 0))
         = concat (map2 (\<lambda>k a. replicate a (chunkFormData C f up ?T k))
                     [0..<0 + length as] as)"
    by (rule uploadChunks_order)
  then show ?thesis
    by (simp add: uploadLargeFile_def Let_def) blast
qed

lemma uploadLargeFile_acknowledged:
  assumes "\<forall>K<nat \<lceil>real (length (fbytes f)) / real C\<rceil>. \<exists>d fs. tryFetch (net K) = Inr (d, fs)
      \<and> (K + 1 < nat \<lceil>real (length (fbytes f)) / real C\<rceil> \<longrightarrow> \<not> (d \<and> fs \<noteq> []))"
  shows "requests (fst (uploadLargeFile env net C f up i))
     = map (chunkFormData C f up (nat \<lceil>real (length (fbytes f)) / real C\<rceil>))
         [0..<nat \<lceil>real (length (fbytes f)) / real C\<rceil>]"
proof -
  let ?T = "nat \<lceil>real (length (fbytes f)) / real C\<rceil>"
  from assms have "\<forall>k. 0 \<le> k \<and> k < ?T \<longrightarrow>
      (\<exists>d fs. tryFetch (net (0 + (k - 0))) = Inr (d, fs) \<and> (k + 1 < ?T \<longrightarrow> \<not> (d \<and> fs \<noteq> [])))"
    by simp
  from uploadChunks_acknowledged [OF this]
  show ?thesis by (simp add: uploadLargeFile_def Let_def)
qed

lemma CHUNK_SIZE_positive: "0 < CHUNK_SIZE configured"
  by (simp add: CHUNK_SIZE_def)

text \<open>
  Claim C2, as amended. Let \<open>C = max(1 MiB, configured chunk size)\<close> and let a file of \<open>S\<close> bytes be
  one of the files of a call of \<open>uploadFiles\<close>, after the files \<open>before\<close>. The requests
  of the call are those of the files before it, then those of the file, then those of the
  files after it, and those of the file are as follows.
  \<^item> If \<open>S \<le> C\<close>: one request, holding the file and the destination path and none of
    \<open>chunkIndex\<close>, \<open>totalChunks\<close>, \<open>fileName\<close>.
  \<^item> If \<open>S > C\<close>: only chunk requests, in the order of the chunks, one after the other:
    chunk 0 one to three times, then chunk 1 one to three times, and so on, for at least
    one and at most \<open>\<lceil>S / C\<rceil>\<close> chunks. A chunk is sent again after an attempt that failed,
    so the requests may be more than \<open>\<lceil>S / C\<rceil>\<close>; and the chunks after one that failed three
    times, or after a completed response, are not sent, so they may be fewer.
  \<^item> If \<open>S > C\<close> and every chunk is acknowledged at its first attempt, no response before
    the last being a completed one: exactly \<open>\<lceil>S / C\<rceil>\<close> requests, chunk \<open>K\<close> being the
    \<open>K\<close>-th.
  \<^item> The request of chunk \<open>K\<close> holds the bytes \<open>[K * C, min((K + 1) * C, S))\<close> of the file,
    \<open>chunkIndex = K\<close> and \<open>totalChunks = \<lceil>S / C\<rceil>\<close> in decimal, the name of the file and the
    destination path.
  \<^item> The slices of the chunks \<open>0, \<dots>, \<lceil>S / C\<rceil> - 1\<close>, one after the other, are the bytes of
    the file.
\<close>

theorem upload_plan:
  fixes x :: File
  assumes "C = CHUNK_SIZE configured" and "S = length (fbytes x)"
    and "T = nat \<lceil>real S / real C\<rceil>" and "i = length before"
    and "sent = requests (fst (uploadFiles env net xhr configured (before @ x # after) up))"
    and "earlier = requests (fst (uploadLoop env net xhr C up 0 before))"
    and "later = requests (fst (uploadLoop env net xhr C up (i + 1) after))"
  shows "C = max (1024 * 1024) configured
    \<and> (S \<le> C \<longrightarrow>
          sent = earlier
            @ [\<lparr> fdFiles = [x], fdPath = Some up, fdChunkIndex = None, fdTotalChunks = None,
                  fdFileName = None \<rparr>]
            @ later)
    \<and> (C < S \<longrightarrow>
          (\<exists>as. as \<noteq> [] \<and> length as \<le> T \<and> (\<forall>a\<in>set as. 1 \<le> a \<and> a \<le> 3)
             \<and> sent = earlier
                 @ concat (map2 (\<lambda>K a. replicate a (chunkFormData C x up T K))
                             [0..<length as] as)
                 @ later))
    \<and> (C < S \<and> (\<forall>K<T. \<exists>d fs. tryFetch (net i K) = Inr (d, fs)
                      \<and> (K + 1 < T \<longrightarrow> \<not> (d \<and> fs \<noteq> []))) \<longrightarrow>
          sent = earlier @ map (chunkFormData C x up T) [0..<T] @ later
          \<and> length (map (chunkFormData C x up T) [0..<T]) = T)
    \<and> (\<forall>K. chunkFormData C x up T K =
          \<lparr> fdFiles = [blob (slice (fbytes x) (K * C) (min ((K + 1) * C) S))],
            fdPath = Some up, fdChunkIndex = Some (toString K),
            fdTotalChunks = Some (toString T), fdFileName = Some (fname x) \<rparr>)
    \<and> concat (map (\<lambda>K. slice (fbytes x) (K * C) (min ((K + 1) * C) S)) [0..<T]) = fbytes x"
proof -
  note r = uploadFiles_requests [of env net xhr configured before x after up,
      folded assms(1) assms(2) assms(4), folded assms(5) assms(6) assms(7)]
  have a: "C = max (1024 * 1024) configured"
    by (simp add: assms(1) CHUNK_SIZE_def)
  have b: "sent = earlier
            @ [\<lparr> fdFiles = [x], fdPath = Some up, fdChunkIndex = None, fdTotalChunks = None,
                  fdFileName = None \<rparr>]
            @ later" if "S \<le> C"
    using that r by (simp add: uploadSmallFile_requests)
  have pos: "0 < C" unfolding assms(1) by (rule CHUNK_SIZE_positive)
  have c: "\<exists>as. as \<noteq> [] \<and> length as \<le> T \<and> (\<forall>a\<in>set as. 1 \<le> a \<and> a \<le> 3)
             \<and> sent = earlier
                 @ concat (map2 (\<lambda>K a. replicate a (chunkFormData C x up T K))
                             [0..<length as] as)
                 @ later" if "C < S"
  proof -
    from that pos have "0 < real S / real C" by simp
    then have T: "0 < T" unfolding assms(3) by simp
    from uploadLargeFile_order [of x C env "net i" up i, folded assms(2), folded assms(3)]
    obtain as where as: "length as \<le> T" "\<forall>a\<in>set as. 1 \<le> a \<and> a \<le> 3"
      "requests (fst (uploadLargeFile env (net i) C x up i))
         = concat (map2 (\<lambda>K a. replicate a (chunkFormData C x up T K)) [0..<length as] as)"
      and "0 < T \<longrightarrow> as \<noteq> []"
      by blast
    with T have ne: "as \<noteq> []" by simp
    from that r as(3) have "sent = earlier
                 @ concat (map2 (\<lambda>K a. replicate a (chunkFormData C x up T K))
                             [0..<length as] as)
                 @ later"
      by simp
    with as(1,2) ne show ?thesis by blast
  qed
  have d: "sent = earlier @ map (chunkFormData C x up T) [0..<T] @ later
          \<and> length (map (chunkFormData C x up T) [0..<T]) = T"
    if "C < S" and ack: "\<forall>K<T. \<exists>d fs. tryFetch (net i K) = Inr (d, fs)
                      \<and> (K + 1 < T \<longrightarrow> \<not> (d \<and> fs \<noteq> []))"
  proof -
    from ack have "\<forall>K<nat \<lceil>real (length (fbytes x)) / real C\<rceil>. \<exists>d fs.
        tryFetch (net i K) = Inr (d, fs)
        \<and> (K + 1 < nat \<lceil>real (length (fbytes x)) / real C\<rceil> \<longrightarrow> \<not> (d \<and> fs \<noteq> []))"
      unfolding assms(3) assms(2) .
    from uploadLargeFile_acknowledged [OF this, of env up i, folded assms(2), folded assms(3)]
    have "requests (fst (uploadLargeFile env (net i) C x up i))
        = map (chunkFormData C x up T) [0..<T]" .
    with that(1) r show ?thesis by simp
  qed
  have e: "chunkFormData C x up T K =
          \<lparr> fdFiles = [blob (slice (fbytes x) (K * C) (min ((K + 1) * C) S))],
            fdPath = Some up, fdChunkIndex = Some (toString K),
            fdTotalChunks = Some (toString T), fdFileName = Some (fname x) \<rparr>" for K
    by (simp add: chunkFormData_def Let_def assms(2) add.commute)
  have "0 < C" unfolding assms(1) by (rule CHUNK_SIZE_positive)
  from concat_slices [OF this, of "fbytes x"]
  have f: "concat (map (\<lambda>K. slice (fbytes x) (K * C) (min ((K + 1) * C) S)) [0..<T]) = fbytes x"
    unfolding assms(3) assms(2) .
  from a b c d e f show ?thesis by blast
qed

theorem upload_plan_witness:
  "requests (fst (uploadFiles (calm 0) (\<lambda>i n. Json True False [] []) (\<lambda>i. XhrError) 0
       [\<lparr> fname = ''notes.txt'', ftype = ''text/plain'', fbytes = ''abc'' \<rparr>,
        \<lparr> fname = ''movie.mp4'', ftype = ''video/mp4'',
          fbytes = replicate 2097153 (CHR ''a'') \<rparr>]
       ''Documents''))
     = [\<lparr> fdFiles = [\<lparr> fname = ''notes.txt'', ftype = ''text/plain'', fbytes = ''abc'' \<rparr>],
          fdPath = Some ''Documents'', fdChunkIndex = None, fdTotalChunks = None,
          fdFileName = None \<rparr>,
        \<lparr> fdFiles = [blob (replicate 1048576 (CHR ''a''))], fdPath = Some ''Documents'',
          fdChunkIndex = Some ''0'', fdTotalChunks = Some ''3'',
          fdFileName = Some ''movie.mp4'' \<rparr>,
        \<lparr> fdFiles = [blob (replicate 1048576 (CHR ''a''))], fdPath = Some ''Documents'',
          fdChunkIndex = Some ''1'', fdTotalChunks = Some ''3'',
          fdFileName = Some ''movie.mp4'' \<rparr>,
        \<lparr> fdFiles = [blob ''a''], fdPath = Some ''Documents'',
          fdChunkIndex = Some ''2'', fdTotalChunks = Some ''3'',
          fdFileName = Some ''movie.mp4'' \<rparr>]
   \<and> requests (fst (uploadFiles (calm 0) (\<lambda>i n. Json True False [] []) (\<lambda>i. XhrError) 0
       [\<lparr> fname = ''notes.txt'', ftype = ''text/plain'', fbytes = ''abc'' \<rparr>] ''Documents''))
     = [\<lparr> fdFiles = [\<lparr> fname = ''notes.txt'', ftype = ''text/plain'', fbytes = ''abc'' \<rparr>],
          fdPath = Some ''Documents'', fdChunkIndex = None, fdTotalChunks = None,
          fdFileName = None \<rparr>]
   \<and> replicate 1048576 (CHR ''a'') @ replicate 1048576 (CHR ''a'') @ ''a''
     = replicate 2097153 (CHR ''a'')"
proof -
  let ?small = "\<lparr> fname = ''notes.txt'', ftype = ''text/plain'', fbytes = ''abc'' \<rparr>"
  let ?big = "\<lparr> fname = ''movie.mp4'', ftype = ''video/mp4'',
          fbytes = replicate 2097153 (CHR ''a'') \<rparr>"
  let ?net = "\<lambda>(i::nat) (n::nat). Json True False [] []"
  let ?xhr = "\<lambda>i::nat. XhrError"
  let ?C = "CHUNK_SIZE 0"
  note p = upload_plan [where configured = 0 and x = ?big and before = "[?small]"
      and after = "[]" and env = "calm 0" and net = ?net and xhr = ?xhr
      and up = "''Documents''", OF refl refl refl refl refl refl refl]
  note q = upload_plan [where configured = 0 and x = ?small and before = "[]"
      and after = "[]" and env = "calm 0" and net = ?net and xhr = ?xhr
      and up = "''Documents''", OF refl refl refl refl refl refl refl]
  have C: "?C = 1048576" by (simp add: CHUNK_SIZE_def)
  have T: "nat \<lceil>real (length (fbytes ?big)) / real ?C\<rceil> = 3"
    by (simp add: C)
  have digits: "toString 0 = ''0''" "toString (Suc 0) = ''1''" "toString 2 = ''2''"
    "toString 3 = ''3''"
    by (simp_all add: toString.simps digitChar_simps)
  have upt: "[0..<3] = [0, 1, 2]"
    by (simp add: upt_conv_Cons)
  have earlier: "requests (fst (uploadLoop (calm 0) ?net ?xhr ?C ''Documents'' 0 [?small]))
      = [\<lparr> fdFiles = [?small], fdPath = Some ''Documents'', fdChunkIndex = None,
           fdTotalChunks = None, fdFileName = None \<rparr>]"
    by (simp add: C uploadSmallFile_def)
  have acks: "\<forall>K<3. \<exists>d fs. tryFetch (?net (length [?small]) K) = Inr (d, fs)
      \<and> (K + 1 < 3 \<longrightarrow> \<not> (d \<and> fs \<noteq> []))"
    by auto
  have big: "?C < length (fbytes ?big)" by (simp add: C)
  from p [THEN conjunct2, THEN conjunct2, THEN conjunct2, THEN conjunct1, unfolded T,
      rule_format, OF conjI, OF big acks, THEN conjunct1]
  have sent: "requests (fst (uploadFiles (calm 0) ?net ?xhr 0 [?small, ?big] ''Documents''))
      = requests (fst (uploadLoop (calm 0) ?net ?xhr ?C ''Documents'' 0 [?small]))
        @ map (chunkFormData ?C ?big ''Documents'' 3) [0..<3]
        @ requests (fst (uploadLoop (calm 0) ?net ?xhr ?C ''Documents'' (length [?small] + 1) []))"
    by simp
  from p [THEN conjunct2, THEN conjunct2, THEN conjunct2, THEN conjunct2, THEN conjunct1,
      unfolded T]
  have forms: "chunkFormData ?C ?big ''Documents'' 3 K =
          \<lparr> fdFiles = [blob (slice (fbytes ?big) (K * ?C)
                          (min ((K + 1) * ?C) (length (fbytes ?big))))],
            fdPath = Some ''Documents'', fdChunkIndex = Some (toString K),
            fdTotalChunks = Some ''3'', fdFileName = Some (fname ?big) \<rparr>" for K
    by (simp add: digits)
  have first: "requests (fst (uploadFiles (calm 0) ?net ?xhr 0 [?small, ?big] ''Documents''))
     = [\<lparr> fdFiles = [?small],
          fdPath = Some ''Documents'', fdChunkIndex = None, fdTotalChunks = None,
          fdFileName = None \<rparr>,
        \<lparr> fdFiles = [blob (replicate 1048576 (CHR ''a''))], fdPath = Some ''Documents'',
          fdChunkIndex = Some ''0'', fdTotalChunks = Some ''3'',
          fdFileName = Some ''movie.mp4'' \<rparr>,
        \<lparr> fdFiles = [blob (replicate 1048576 (CHR ''a''))], fdPath = Some ''Documents'',
          fdChunkIndex = Some ''1'', fdTotalChunks = Some ''3'',
          fdFileName = Some ''movie.mp4'' \<rparr>,
        \<lparr> fdFiles = [blob ''a''], fdPath = Some ''Documents'',
          fdChunkIndex = Some ''2'', fdTotalChunks = Some ''3'',
          fdFileName = Some ''movie.mp4'' \<rparr>]"
  proof -
    have f0: "chunkFormData ?C ?big ''Documents'' 3 0 =
        \<lparr> fdFiles = [blob (replicate 1048576 (CHR ''a''))], fdPath = Some ''Documents'',
          fdChunkIndex = Some ''0'', fdTotalChunks = Some ''3'',
          fdFileName = Some ''movie.mp4'' \<rparr>"
      unfolding forms by (simp add: digits C slice_def)
    have f1: "chunkFormData ?C ?big ''Documents'' 3 1 =
        \<lparr> fdFiles = [blob (replicate 1048576 (CHR ''a''))], fdPath = Some ''Documents'',
          fdChunkIndex = Some ''1'', fdTotalChunks = Some ''3'',
          fdFileName = Some ''movie.mp4'' \<rparr>"
      unfolding forms by (simp add: digits C slice_def)
    have f2: "chunkFormData ?C ?big ''Documents'' 3 2 =
        \<lparr> fdFiles = [blob ''a''], fdPath = Some ''Documents'',
          fdChunkIndex = Some ''2'', fdTotalChunks = Some ''3'',
          fdFileName = Some ''movie.mp4'' \<rparr>"
      unfolding forms by (simp add: digits C slice_def)
    show ?thesis
      unfolding sent earlier upt list.map f0 f1 f2 by simp
  qed
  have small: "length (fbytes ?small) \<le> ?C" by (simp add: C)
  from q [THEN conjunct2, THEN conjunct1, rule_format, OF small]
  have second: "requests (fst (uploadFiles (calm 0) ?net ?xhr 0 [?small] ''Documents''))
     = [\<lparr> fdFiles = [?small],
          fdPath = Some ''Documents'', fdChunkIndex = None, fdTotalChunks = None,
          fdFileName = None \<rparr>]"
    by simp
  from p [THEN conjunct2, THEN conjunct2, THEN conjunct2, THEN conjunct2, THEN conjunct2,
      unfolded T upt]
  have third: "replicate 1048576 (CHR ''a'') @ replicate 1048576 (CHR ''a'') @ ''a''
     = replicate 2097153 (CHR ''a'')"
    by (simp add: C slice_def)
  from first second third show ?thesis by blast
qed

text \<open>
  The claim as it is worded, on a file of \<open>2^20 + 1\<close> bytes, which has \<open>\<lceil>S / C\<rceil> = 2\<close>
  chunks, the first \<open>fetch\<close> being rejected and the others acknowledged: the upload
  succeeds, and three chunk requests were made, chunk 0 twice.
\<close>

theorem retried_chunk_is_requested_again:
  "uploadFiles (calm 0)
      (\<lambda>i n. if n = 0 then NetworkError ''Failed to fetch'' else Json True False [] [])
      (\<lambda>i. XhrError) 0
      [\<lparr> fname = ''movie.mp4'', ftype = ''video/mp4'', fbytes = replicate 1048577 (CHR ''a'') \<rparr>]
      ''Documents''
    = ([OnProgress 0 ''movie.mp4'' 0 0 1048577 ''pending'' None,
        OnProgress 0 ''movie.mp4'' 0 0 1048577 ''uploading'' None,
        Fetch \<lparr> fdFiles = [blob (replicate 1048576 (CHR ''a''))], fdPath = Some ''Documents'',
                fdChunkIndex = Some ''0'', fdTotalChunks = Some ''2'',
                fdFileName = Some ''movie.mp4'' \<rparr>,
        Sleep 1000,
        Fetch \<lparr> fdFiles = [blob (replicate 1048576 (CHR ''a''))], fdPath = Some ''Documents'',
                fdChunkIndex = Some ''0'', fdTotalChunks = Some ''2'',
                fdFileName = Some ''movie.mp4'' \<rparr>,
        chunkProgress
          \<lparr> fname = ''movie.mp4'', ftype = ''video/mp4'',
            fbytes = replicate 1048577 (CHR ''a'') \<rparr> 0 2 1,
        Fetch \<lparr> fdFiles = [blob ''a''], fdPath = Some ''Documents'',
                fdChunkIndex = Some ''1'', fdTotalChunks = Some ''2'',
                fdFileName = Some ''movie.mp4'' \<rparr>,
        chunkProgress
          \<lparr> fname = ''movie.mp4'', ftype = ''video/mp4'',
            fbytes = replicate 1048577 (CHR ''a'') \<rparr> 0 2 2,
        OnProgress 0 ''movie.mp4'' 100 1048577 1048577 ''completed'' None],
       Inr ([fallbackRecord (calm 0)
               \<lparr> fname = ''movie.mp4'', ftype = ''video/mp4'',
                 fbytes = replicate 1048577 (CHR ''a'') \<rparr> ''Documents''],
            ''Successfully uploaded 1 file(s)'', ''Documents''))
   \<and> length (requests (fst (uploadFiles (calm 0)
        (\<lambda>i n. if n = 0 then NetworkError ''Failed to fetch'' else Json True False [] [])
        (\<lambda>i. XhrError) 0
        [\<lparr> fname = ''movie.mp4'', ftype = ''video/mp4'',
           fbytes = replicate 1048577 (CHR ''a'') \<rparr>]
        ''Documents''))) = 3
   \<and> CHUNK_SIZE 0 < 1048577
   \<and> nat \<lceil>real 1048577 / real (CHUNK_SIZE 0)\<rceil> = 2"
proof -
  let ?movie = "\<lparr> fname = ''movie.mp4'', ftype = ''video/mp4'',
      fbytes = replicate 1048577 (CHR ''a'') \<rparr>"
  let ?net = "\<lambda>n::nat. if n = 0 then NetworkError ''Failed to fetch'' else Json True False [] []"
  let ?fd0 = "\<lparr> fdFiles = [blob (replicate 1048576 (CHR ''a''))], fdPath = Some ''Documents'',
                fdChunkIndex = Some ''0'', fdTotalChunks = Some ''2'',
                fdFileName = Some ''movie.mp4'' \<rparr>"
  let ?fd1 = "\<lparr> fdFiles = [blob ''a''], fdPath = Some ''Documents'',
                fdChunkIndex = Some ''1'', fdTotalChunks = Some ''2'',
                fdFileName = Some ''movie.mp4'' \<rparr>"
  have C: "CHUNK_SIZE 0 = 1048576" by (simp add: CHUNK_SIZE_def)
  have T: "nat \<lceil>real 1048577 / real (CHUNK_SIZE 0)\<rceil> = 2"
    by (simp add: C)
  have digits: "toString 0 = ''0''" "toString (Suc 0) = ''1''" "toString 2 = ''2''"
    by (simp_all add: toString.simps digitChar_simps)
  have f0: "chunkFormData 1048576 ?movie ''Documents'' 2 0 = ?fd0"
    by (simp add: chunkFormData_def slice_def digits Let_def)
  have f1: "chunkFormData 1048576 ?movie ''Documents'' 2 (Suc 0) = ?fd1"
    by (simp add: chunkFormData_def slice_def digits Let_def)
  have s0: "sendChunk ?net ?movie 0 2 ?fd0 0 0 0 0
      = ([Fetch ?fd0, Sleep 1000, Fetch ?fd0, chunkProgress ?movie 0 2 1], Continue 1, 2)"
    by (simp add: sendChunk_unfold)
  have s1: "sendChunk ?net ?movie 0 2 ?fd1 (Suc 0) 2 0 (Suc 0)
      = ([Fetch ?fd1, chunkProgress ?movie 0 2 2], Continue 2, 3)"
    by (simp add: sendChunk_unfold numeral_2_eq_2)
  have u2: "uploadChunks (calm 0) ?net 1048576 ?movie ''Documents'' 0 2 (Suc (Suc 0)) n u
      = ([], Inr (fallbackRecord (calm 0) ?movie ''Documents''))" for n u
    by (rule uploadChunks_end) simp
  have u1: "uploadChunks (calm 0) ?net 1048576 ?movie ''Documents'' 0 2 (Suc 0) 2 (Suc 0)
      = ([Fetch ?fd1, chunkProgress ?movie 0 2 2],
         Inr (fallbackRecord (calm 0) ?movie ''Documents''))"
    by (subst uploadChunks_step) (simp_all add: f1 s1 u2)
  have u0: "uploadChunks (calm 0) ?net 1048576 ?movie ''Documents'' 0 2 0 0 0
      = ([Fetch ?fd0, Sleep 1000, Fetch ?fd0, chunkProgress ?movie 0 2 1,
          Fetch ?fd1, chunkProgress ?movie 0 2 2],
         Inr (fallbackRecord (calm 0) ?movie ''Documents''))"
    by (subst uploadChunks_step) (simp_all add: f0 s0 u1)
  have large: "uploadLargeFile (calm 0) ?net 1048576 ?movie ''Documents'' 0
      = ([Fetch ?fd0, Sleep 1000, Fetch ?fd0, chunkProgress ?movie 0 2 1,
          Fetch ?fd1, chunkProgress ?movie 0 2 2],
         Inr (fallbackRecord (calm 0) ?movie ''Documents''))"
    using u0 by (simp add: uploadLargeFile_def Let_def)
  have all: "uploadFiles (calm 0) (\<lambda>i. ?net) (\<lambda>i. XhrError) 0 [?movie] ''Documents''
    = ([OnProgress 0 ''movie.mp4'' 0 0 1048577 ''pending'' None,
        OnProgress 0 ''movie.mp4'' 0 0 1048577 ''uploading'' None,
        Fetch ?fd0, Sleep 1000, Fetch ?fd0, chunkProgress ?movie 0 2 1,
        Fetch ?fd1, chunkProgress ?movie 0 2 2,
        OnProgress 0 ''movie.mp4'' 100 1048577 1048577 ''completed'' None],
       Inr ([fallbackRecord (calm 0) ?movie ''Documents''],
            ''Successfully uploaded 1 file(s)'', ''Documents''))"
    by (simp add: uploadFiles_def C large digits)
  have "length (requests (fst (uploadFiles (calm 0) (\<lambda>i. ?net) (\<lambda>i. XhrError) 0 [?movie]
      ''Documents''))) = 3"
    unfolding all by (simp add: chunkProgress_def Let_def)
  with all C T show ?thesis by simp
qed

section \<open>Failed chunks\<close>

text \<open>
  Claim C3. A transmission of a chunk fails when \<open>fetch\<close> rejects (with its message), when
  the status is not 2xx (\<open>HTTP <status>: <status text>\<close>) and when the body says
  \<open>success: false\<close> (with its \<open>error\<close>, or \<open>Chunk upload failed\<close>). For the chunk of index
  \<open>k\<close> of a file, whatever was sent before it:
  \<^item> when the first attempt fails and the second is acknowledged, the same form is sent
    twice, with a wait of 1000 ms between the two;
  \<^item> when two attempts fail and the third is acknowledged, the same form is sent three
    times, with waits of 1000 ms and 2000 ms;
  \<^item> when three attempts fail, the form has been sent three times, with waits of 1000 ms
    and 2000 ms, there is no fourth attempt and no wait after the third, no other chunk of
    the file is sent, and the upload of the file ends with the error
    \<open>Chunk <k + 1> failed after 3 attempts: <message of the third failure>\<close>: the chunk is
    named by its number counted from one, not by the \<open>chunkIndex\<close> that was sent.
\<close>

theorem failed_chunk_retries:
  assumes "k < T" and "fd = chunkFormData C f up T k"
  shows "(\<forall>m. tryFetch (NetworkError m) = Inl m)
    \<and> (\<forall>st txt. tryFetch (HttpError st txt) = Inl (''HTTP '' @ toString st @ '': '' @ txt))
    \<and> (\<forall>d fs e. tryFetch (Json False d fs e)
          = Inl (if e = [] then ''Chunk upload failed'' else e))
    \<and> (tryFetch (net n) = Inl e1 \<and> tryFetch (net (n + 1)) = Inr (d, fs) \<longrightarrow>
          sendChunk net f fi T fd k n 0 u =
            ([Fetch fd, Sleep 1000, Fetch fd, chunkProgress f fi T (u + 1)],
             if d \<and> fs \<noteq> [] then Returned (hd fs) else Continue (u + 1), n + 2))
    \<and> (tryFetch (net n) = Inl e1 \<and> tryFetch (net (n + 1)) = Inl e2
          \<and> tryFetch (net (n + 2)) = Inr (d, fs) \<longrightarrow>
          sendChunk net f fi T fd k n 0 u =
            ([Fetch fd, Sleep 1000, Fetch fd, Sleep 2000, Fetch fd,
              chunkProgress f fi T (u + 1)],
             if d \<and> fs \<noteq> [] then Returned (hd fs) else Continue (u + 1), n + 3))
    \<and> (tryFetch (net n) = Inl e1 \<and> tryFetch (net (n + 1)) = Inl e2
          \<and> tryFetch (net (n + 2)) = Inl e3 \<longrightarrow>
          uploadChunks env net C f up fi T k n u =
            ([Fetch fd, Sleep 1000, Fetch fd, Sleep 2000, Fetch fd],
             Inl (''Chunk '' @ toString (k + 1) @ '' failed after 3 attempts: '' @ e3)))"
proof -
  have a: "sendChunk net f fi T fd k n 0 u =
            ([Fetch fd, Sleep 1000, Fetch fd, chunkProgress f fi T (u + 1)],
             if d \<and> fs \<noteq> [] then Returned (hd fs) else Continue (u + 1), n + 2)"
    if "tryFetch (net n) = Inl e1" "tryFetch (net (n + 1)) = Inr (d, fs)"
    using that by (simp add: sendChunk_unfold)
  have b: "sendChunk net f fi T fd k n 0 u =
            ([Fetch fd, Sleep 1000, Fetch fd, Sleep 2000, Fetch fd,
              chunkProgress f fi T (u + 1)],
             if d \<and> fs \<noteq> [] then Returned (hd fs) else Continue (u + 1), n + 3)"
    if "tryFetch (net n) = Inl e1" "tryFetch (net (n + 1)) = Inl e2"
      "tryFetch (net (n + 2)) = Inr (d, fs)"
    using that by (simp add: sendChunk_unfold)
  have c: "uploadChunks env net C f up fi T k n u =
            ([Fetch fd, Sleep 1000, Fetch fd, Sleep 2000, Fetch fd],
             Inl (''Chunk '' @ toString (k + 1) @ '' failed after 3 attempts: '' @ e3))"
    if "tryFetch (net n) = Inl e1" "tryFetch (net (n + 1)) = Inl e2"
      "tryFetch (net (n + 2)) = Inl e3"
    unfolding assms(2) by (rule uploadChunks_exhausted [OF assms(1) that])
  have t: "\<forall>m. tryFetch (NetworkError m) = Inl m"
    "\<forall>st txt. tryFetch (HttpError st txt) = Inl (''HTTP '' @ toString st @ '': '' @ txt)"
    "\<forall>d fs e. tryFetch (Json False d fs e) = Inl (if e = [] then ''Chunk upload failed'' else e)"
    by simp_all
  from a b c t show ?thesis by blast
qed

lemma toString_500: "toString 500 = ''500''"
  by (simp add: toString.simps digitChar_simps)

lemma toString_small:
  "toString 0 = ''0''" "toString (Suc 0) = ''1''" "toString 2 = ''2''" "toString 3 = ''3''"
  by (simp_all add: toString.simps digitChar_simps)

lemma chunkFormData_movie_0:
  "chunkFormData (CHUNK_SIZE 0)
     \<lparr> fname = ''movie.mp4'', ftype = ''video/mp4'', fbytes = replicate 2097153 (CHR ''a'') \<rparr>
     ''Documents'' 3 0
   = \<lparr> fdFiles = [blob (replicate 1048576 (CHR ''a''))], fdPath = Some ''Documents'',
       fdChunkIndex = Some ''0'', fdTotalChunks = Some ''3'',
       fdFileName = Some ''movie.mp4'' \<rparr>"
  by (simp add: chunkFormData_def CHUNK_SIZE_def slice_def toString_small Let_def)

lemma chunkFormData_movie_1:
  "chunkFormData (CHUNK_SIZE 0)
     \<lparr> fname = ''movie.mp4'', ftype = ''video/mp4'', fbytes = replicate 2097153 (CHR ''a'') \<rparr>
     ''Documents'' 3 1
   = \<lparr> fdFiles = [blob (replicate 1048576 (CHR ''a''))], fdPath = Some ''Documents'',
       fdChunkIndex = Some ''1'', fdTotalChunks = Some ''3'',
       fdFileName = Some ''movie.mp4'' \<rparr>"
  by (simp add: chunkFormData_def CHUNK_SIZE_def slice_def toString_small Let_def)

lemma totalChunks_movie:
  "nat \<lceil>real (length (fbytes
       \<lparr> fname = ''movie.mp4'', ftype = ''video/mp4'',
         fbytes = replicate 2097153 (CHR ''a'') \<rparr>)) / real (CHUNK_SIZE 0)\<rceil> = 3"
  by (simp add: CHUNK_SIZE_def)

theorem failed_chunk_retries_witness:
  "uploadChunks (calm 0)
      (\<lambda>n. if n = 0 then Json True False [] [] else if n = 1 then NetworkError ''Failed to fetch''
            else if n = 2 then Json False False [] ''disk full''
            else HttpError 500 ''Internal Server Error'')
      (CHUNK_SIZE 0)
      \<lparr> fname = ''movie.mp4'', ftype = ''video/mp4'', fbytes = replicate 2097153 (CHR ''a'') \<rparr>
      ''Documents'' 0 3 1 1 1
    = ([Fetch \<lparr> fdFiles = [blob (replicate 1048576 (CHR ''a''))], fdPath = Some ''Documents'',
                fdChunkIndex = Some ''1'', fdTotalChunks = Some ''3'',
                fdFileName = Some ''movie.mp4'' \<rparr>,
        Sleep 1000,
        Fetch \<lparr> fdFiles = [blob (replicate 1048576 (CHR ''a''))], fdPath = Some ''Documents'',
                fdChunkIndex = Some ''1'', fdTotalChunks = Some ''3'',
                fdFileName = Some ''movie.mp4'' \<rparr>,
        Sleep 2000,
        Fetch \<lparr> fdFiles = [blob (replicate 1048576 (CHR ''a''))], fdPath = Some ''Documents'',
                fdChunkIndex = Some ''1'', fdTotalChunks = Some ''3'',
                fdFileName = Some ''movie.mp4'' \<rparr>],
       Inl ''Chunk 2 failed after 3 attempts: HTTP 500: Internal Server Error'')
   \<and> fst (sendChunk
      (\<lambda>n. if n = 0 then Json True False [] [] else if n = 1 then NetworkError ''Failed to fetch''
            else Json True False [] [])
      \<lparr> fname = ''movie.mp4'', ftype = ''video/mp4'', fbytes = replicate 2097153 (CHR ''a'') \<rparr>
      0 3
      \<lparr> fdFiles = [blob (replicate 1048576 (CHR ''a''))], fdPath = Some ''Documents'',
        fdChunkIndex = Some ''1'', fdTotalChunks = Some ''3'',
        fdFileName = Some ''movie.mp4'' \<rparr>
      1 1 0 1)
    = [Fetch \<lparr> fdFiles = [blob (replicate 1048576 (CHR ''a''))], fdPath = Some ''Documents'',
               fdChunkIndex = Some ''1'', fdTotalChunks = Some ''3'',
               fdFileName = Some ''movie.mp4'' \<rparr>,
       Sleep 1000,
       Fetch \<lparr> fdFiles = [blob (replicate 1048576 (CHR ''a''))], fdPath = Some ''Documents'',
               fdChunkIndex = Some ''1'', fdTotalChunks = Some ''3'',
               fdFileName = Some ''movie.mp4'' \<rparr>,
       OnProgress 0 ''movie.mp4'' (200 / 3) 1398102 2097153 ''uploading'' None]"
proof -
  let ?movie = "\<lparr> fname = ''movie.mp4'', ftype = ''video/mp4'',
      fbytes = replicate 2097153 (CHR ''a'') \<rparr>"
  let ?fd = "\<lparr> fdFiles = [blob (replicate 1048576 (CHR ''a''))], fdPath = Some ''Documents'',
        fdChunkIndex = Some ''1'', fdTotalChunks = Some ''3'',
        fdFileName = Some ''movie.mp4'' \<rparr>"
  let ?net = "\<lambda>n::nat. if n = 0 then Json True False [] []
            else if n = 1 then NetworkError ''Failed to fetch''
            else if n = 2 then Json False False [] ''disk full''
            else HttpError 500 ''Internal Server Error''"
  let ?net' = "\<lambda>n::nat. if n = 0 then Json True False [] []
            else if n = 1 then NetworkError ''Failed to fetch''
            else Json True False [] []"
  have k: "(1::nat) < 3" by simp
  note t = failed_chunk_retries [where k = 1 and T = 3 and C = "CHUNK_SIZE 0" and f = ?movie
      and up = "''Documents''" and fd = ?fd and net = ?net and n = 1 and u = 1 and fi = 0
      and env = "calm 0" and ?e1.0 = "''Failed to fetch''" and ?e2.0 = "''disk full''"
      and ?e3.0 = "''HTTP 500: Internal Server Error''",
      OF k chunkFormData_movie_1 [symmetric]]
  note s = failed_chunk_retries [where k = 1 and T = 3 and C = "CHUNK_SIZE 0" and f = ?movie
      and up = "''Documents''" and fd = ?fd and net = ?net' and n = 1 and u = 1 and fi = 0
      and ?e1.0 = "''Failed to fetch''" and d = False and fs = "[]",
      OF k chunkFormData_movie_1 [symmetric]]
  from t have first: "uploadChunks (calm 0) ?net (CHUNK_SIZE 0) ?movie ''Documents'' 0 3 1 1 1
      = ([Fetch ?fd, Sleep 1000, Fetch ?fd, Sleep 2000, Fetch ?fd],
         Inl ''Chunk 2 failed after 3 attempts: HTTP 500: Internal Server Error'')"
    by (simp add: toString_500 toString_small two)
  from s have "fst (sendChunk ?net' ?movie 0 3 ?fd 1 1 0 1)
      = [Fetch ?fd, Sleep 1000, Fetch ?fd, chunkProgress ?movie 0 3 2]"
    by (simp add: two)
  also have "chunkProgress ?movie 0 3 2
      = OnProgress 0 ''movie.mp4'' (200 / 3) 1398102 2097153 ''uploading'' None"
    by (simp add: chunkProgress_def Let_def)
  finally show ?thesis using first by blast
qed

text \<open>
  The claim as it is worded, on the first chunk of a file of three chunks, every \<open>fetch\<close>
  being rejected: the requests carry \<open>chunkIndex = 0\<close>, the error names chunk 1.
\<close>

theorem failed_chunk_is_named_by_its_number:
  "snd (uploadLargeFile (calm 0) (\<lambda>n. NetworkError ''Failed to fetch'') (CHUNK_SIZE 0)
      \<lparr> fname = ''movie.mp4'', ftype = ''video/mp4'', fbytes = replicate 2097153 (CHR ''a'') \<rparr>
      ''Documents'' 0)
    = Inl ''Chunk 1 failed after 3 attempts: Failed to fetch''
   \<and> map fdChunkIndex (requests (fst (uploadLargeFile (calm 0)
        (\<lambda>n. NetworkError ''Failed to fetch'') (CHUNK_SIZE 0)
        \<lparr> fname = ''movie.mp4'', ftype = ''video/mp4'',
          fbytes = replicate 2097153 (CHR ''a'') \<rparr>
        ''Documents'' 0)))
    = [Some ''0'', Some ''0'', Some ''0'']"
proof -
  let ?movie = "\<lparr> fname = ''movie.mp4'', ftype = ''video/mp4'',
      fbytes = replicate 2097153 (CHR ''a'') \<rparr>"
  let ?net = "\<lambda>n::nat. NetworkError ''Failed to fetch''"
  have "uploadChunks (calm 0) ?net (CHUNK_SIZE 0) ?movie ''Documents'' 0 3 0 0 0 =
    ([Fetch (chunkFormData (CHUNK_SIZE 0) ?movie ''Documents'' 3 0), Sleep 1000,
      Fetch (chunkFormData (CHUNK_SIZE 0) ?movie ''Documents'' 3 0),
      Sleep 2000, Fetch (chunkFormData (CHUNK_SIZE 0) ?movie ''Documents'' 3 0)],
     Inl (''Chunk '' @ toString (0 + 1) @ '' failed after 3 attempts: '' @ ''Failed to fetch''))"
    by (rule uploadChunks_exhausted) simp_all
  then have "uploadLargeFile (calm 0) ?net (CHUNK_SIZE 0) ?movie ''Documents'' 0 =
    ([Fetch (chunkFormData (CHUNK_SIZE 0) ?movie ''Documents'' 3 0), Sleep 1000,
      Fetch (chunkFormData (CHUNK_SIZE 0) ?movie ''Documents'' 3 0),
      Sleep 2000, Fetch (chunkFormData (CHUNK_SIZE 0) ?movie ''Documents'' 3 0)],
     Inl ''Chunk 1 failed after 3 attempts: Failed to fetch'')"
    unfolding uploadLargeFile_def totalChunks_movie Let_def by (simp add: toString_small)
  then show ?thesis
    unfolding chunkFormData_movie_0 by simp
qed

end
